theory Spec2Isabelle
  imports Complex_Main "HOL-Library.AList"
begin

section \<open>JavaScript values used by the map modules\<close>

text \<open>
  The modules of the real-time map (coordinator, marker manager, real-time manager, icon
  size utilities, geographic utilities) are embedded function by function. JavaScript
  numbers are modelled as exact rationals: the claims verified here concern comparisons
  and the additions and subtractions of the date-line mirror, not rounding.
\<close>

subsection \<open>iconSizeUtils.calculateIconSizes\<close>

text \<open>
  An icon profile is the object \<^verbatim>\<open>{ size: [w, h], anchor: [..], popupAnchor: [..] }\<close>;
  the field \<^verbatim>\<open>size\<close> is called \<open>icon_size\<close> here.
\<close>

record icon_profile =
  icon_size :: "rat \<times> rat"
  anchor :: "rat \<times> rat"
  popupAnchor :: "rat \<times> rat"

record icon_sizes =
  icon :: icon_profile
  satellite :: icon_profile

definition mk_profile :: "rat \<times> rat \<Rightarrow> icon_profile" where
  "mk_profile sz =
     \<lparr> icon_size = sz,
       anchor = (fst sz / 2, snd sz / 2),
       popupAnchor = (0, - snd sz / 2) \<rparr>"

definition calculateIconSizes :: "rat \<Rightarrow> icon_sizes" where
  "calculateIconSizes zoomLevel =
     (let (iconSize, satIconSize) =
        (if zoomLevel \<ge> 13 then ((16, 16), (14, 14))
         else if zoomLevel \<ge> 10 then ((24, 24), (20, 20))
         else if zoomLevel \<ge> 7 then ((32, 32), (26, 26))
         else if zoomLevel \<ge> 5 then ((40, 40), (32, 32))
         else ((48, 48), (40, 40)))
      in \<lparr> icon = mk_profile iconSize, satellite = mk_profile satIconSize \<rparr>)"

definition size_le :: "rat \<times> rat \<Rightarrow> rat \<times> rat \<Rightarrow> bool" where
  "size_le a b = (fst a \<le> fst b \<and> snd a \<le> snd b)"

subsection \<open>Numbers, null and undefined\<close>

text \<open>
  A numeric field of a marker record holds a number, \<^verbatim>\<open>null\<close>, or is absent
  (\<^verbatim>\<open>undefined\<close>); arithmetic on an absent field gives \<^verbatim>\<open>NaN\<close>. \<open>to_number\<close> is the
  language's ToNumber, with \<open>None\<close> for \<^verbatim>\<open>NaN\<close>. Comparisons with \<^verbatim>\<open>NaN\<close> are false, and
  \<^verbatim>\<open>!==\<close> holds whenever an operand is \<^verbatim>\<open>NaN\<close>.
\<close>

datatype jsnum = Undefined | Null | NaN | Num rat

definition to_number :: "jsnum \<Rightarrow> rat option" where
  "to_number v = (case v of Undefined \<Rightarrow> None | Null \<Rightarrow> Some 0 | NaN \<Rightarrow> None | Num x \<Rightarrow> Some x)"

definition of_number :: "rat option \<Rightarrow> jsnum" where
  "of_number r = (case r of None \<Rightarrow> NaN | Some x \<Rightarrow> Num x)"

definition js_add :: "jsnum \<Rightarrow> jsnum \<Rightarrow> jsnum" where
  "js_add a b = of_number (case (to_number a, to_number b) of
                             (Some x, Some y) \<Rightarrow> Some (x + y) | _ \<Rightarrow> None)"

definition js_sub :: "jsnum \<Rightarrow> jsnum \<Rightarrow> jsnum" where
  "js_sub a b = of_number (case (to_number a, to_number b) of
                             (Some x, Some y) \<Rightarrow> Some (x - y) | _ \<Rightarrow> None)"

definition js_less :: "jsnum \<Rightarrow> jsnum \<Rightarrow> bool" where
  "js_less a b = (case (to_number a, to_number b) of (Some x, Some y) \<Rightarrow> x < y | _ \<Rightarrow> False)"

definition js_greater :: "jsnum \<Rightarrow> jsnum \<Rightarrow> bool" where
  "js_greater a b = js_less b a"

definition strict_ne :: "jsnum \<Rightarrow> jsnum \<Rightarrow> bool" where
  "strict_ne a b = (a = NaN \<or> b = NaN \<or> a \<noteq> b)"

text \<open>Decimal rendering of an index inside a template string.\<close>

fun decimal :: "nat \<Rightarrow> string" where
  "decimal n = (if n < 10 then [''0123456789'' ! n]
                else decimal (n div 10) @ [''0123456789'' ! (n mod 10)])"

declare decimal.simps [simp del]

subsection \<open>geoUtils.normalizeCoordinates\<close>

definition normalizeCoordinates :: "jsnum \<Rightarrow> jsnum" where
  "normalizeCoordinates l =
     (if js_greater l (Num 180) then js_sub l (Num 360)
      else if js_less l (Num (- 180)) then js_add l (Num 360)
      else l)"

subsection \<open>markerManager: the marker records and the module state\<close>

text \<open>
  A marker record carries \<^verbatim>\<open>id\<close>, the positional index \<^verbatim>\<open>i\<close>, \<^verbatim>\<open>lat\<close>, \<^verbatim>\<open>lon\<close>,
  \<^verbatim>\<open>name\<close>, \<^verbatim>\<open>var\<close>, and the two derived fields \<^verbatim>\<open>iconNumber\<close> and \<^verbatim>\<open>iconColor\<close>.
  \<open>None\<close> stands for an absent field (and for \<^verbatim>\<open>NaN\<close> in the derived fields). The fields
  \<^verbatim>\<open>id\<close> and \<^verbatim>\<open>i\<close> are called \<open>marker_id\<close> and \<open>marker_i\<close>.
\<close>

record marker =
  marker_id :: "string option"
  marker_i :: "nat option"
  lat :: jsnum
  lon :: jsnum
  name :: "string option"
  var :: jsnum
  iconNumber :: "nat option"
  iconColor :: "nat option"

text \<open>
  The rendering library is outside the repository. A rendering handle keeps what the
  manager sets on it: the id given as \<^verbatim>\<open>options.markerId\<close>, the position, the data its
  popup was built from and whether the popup is open. \<open>surface\<close> is the record that a spy
  on the rendering surface would keep: \<open>AddLayer\<close> for a handle added to a layer,
  \<open>UpdateHandle\<close> for a handle changed in place (recorded when its new position has been
  accepted), \<open>RemoveLayer\<close> for a handle removed from a layer, and \<open>ClearLayers\<close> for the
  clearing of the marker layer and of the cluster group by \<open>clearAllMarkers\<close>. The manager
  is taken to be initialised with its marker layer. \<open>markerInstances\<close> is the
  insertion-ordered \<^verbatim>\<open>Map\<close> from id to handle, \<open>clusterGroup\<close> tells whether the cluster
  group has been created.
\<close>

record handle =
  optionsMarkerId :: "string option"
  position :: "jsnum \<times> jsnum"
  popup :: marker
  popupOpen :: bool

datatype layer = MarkerLayer | ClusterGroup

datatype surface_call =
    AddLayer layer "string option"
  | UpdateHandle "string option"
  | RemoveLayer layer "string option"
  | ClearLayers

record mstate =
  markers :: "marker list"
  markerInstances :: "(string option \<times> handle) list"
  currentClusterMode :: bool
  clusterGroup :: bool
  surface :: "surface_call list"

text \<open>
  The operations of the manager are \<^verbatim>\<open>async\<close>: an exception thrown inside one rejects
  the promise it returns, and what it had written to the module state stays written. An
  operation therefore yields the module state at its exit together with its completion.
  Two exceptions can arise from a marker record. The position constructor of the
  rendering library, reached through \<^verbatim>\<open>L.marker\<close> and \<^verbatim>\<open>setLatLng\<close>, throws
  \<^verbatim>\<open>Invalid LatLng object\<close> when \<^verbatim>\<open>isNaN\<close> holds of a coordinate, which is the case for an
  absent coordinate and for \<^verbatim>\<open>NaN\<close> and not for \<^verbatim>\<open>null\<close>. Reading \<^verbatim>\<open>toFixed\<close> from a value that
  is \<^verbatim>\<open>undefined\<close> or \<^verbatim>\<open>null\<close> throws a \<^verbatim>\<open>TypeError\<close>. All other calls into the library and
  into the document are taken to return normally.
\<close>

datatype error = InvalidLatLng | TypeError

datatype completion = Returned | Thrown error

definition latLng :: "jsnum \<Rightarrow> jsnum \<Rightarrow> completion" where
  "latLng a b =
     (if to_number a = None \<or> to_number b = None then Thrown InvalidLatLng else Returned)"

definition toFixed :: "jsnum \<Rightarrow> completion" where
  "toFixed v = (if v = Undefined \<or> v = Null then Thrown TypeError else Returned)"

text \<open>
  What \<open>createMarkerPopup\<close> reads of the renderer: whether the display mode of its
  coordinator is \<^verbatim>\<open>'num_state'\<close>, and the \<^verbatim>\<open>positionFormatter\<close> of the component, a
  function that is not part of the repository: \<open>None\<close> when the component has no such
  function, otherwise the set of values on which it returns normally.
\<close>

record renderer =
  numStateMode :: bool
  positionFormatter :: "(jsnum \<Rightarrow> bool) option"

text \<open>The refresh payload \<^verbatim>\<open>{ list, map_url, refreshMode }\<close>; a flag is set when truthy.\<close>

datatype jsflag = FAbsent | FBool bool | FStr string

definition truthy :: "jsflag \<Rightarrow> bool" where
  "truthy f = (case f of FAbsent \<Rightarrow> False | FBool b \<Rightarrow> b | FStr s \<Rightarrow> s \<noteq> [])"

record payload =
  list_p :: "marker list option"
  map_url :: jsflag
  refreshMode :: jsflag

subsection \<open>markerRenderer.createMarkerPopup\<close>

text \<open>
  The popup is a string; the handle keeps the record it was built from, so the function
  is embedded by its completion alone. Outside \<^verbatim>\<open>'num_state'\<close> mode the state line reads
  \<^verbatim>\<open>markerData.var.toFixed(1)\<close>. The coordinates are formatted by the \<^verbatim>\<open>positionFormatter\<close>
  inside a \<^verbatim>\<open>try\<close>; when there is none, or when it throws, they are formatted by
  \<^verbatim>\<open>markerData.lat.toFixed(6)\<close> and \<^verbatim>\<open>lon.toFixed(6)\<close>.
\<close>

definition createMarkerPopup :: "renderer \<Rightarrow> marker \<Rightarrow> jsnum \<Rightarrow> completion" where
  "createMarkerPopup r markerData lon' =
     (case (if numStateMode r then Returned else toFixed (var markerData)) of
        Thrown e \<Rightarrow> Thrown e
      | Returned \<Rightarrow>
          if (case positionFormatter r of
                None \<Rightarrow> False
              | Some formats \<Rightarrow> formats (lat markerData) \<and> formats lon')
          then Returned
          else (case toFixed (lat markerData) of
                  Thrown e \<Rightarrow> Thrown e
                | Returned \<Rightarrow> toFixed lon'))"

subsection \<open>markerManager: the operations\<close>

definition id_text :: "string option \<Rightarrow> string" where
  "id_text v = (case v of None \<Rightarrow> ''undefined'' | Some s \<Rightarrow> s)"

text \<open>The expression \<^verbatim>\<open>marker.id || `marker_${marker.i}`\<close>.\<close>

definition assignId :: "marker \<Rightarrow> string option" where
  "assignId m =
     (if marker_id m \<noteq> None \<and> marker_id m \<noteq> Some []
      then marker_id m
      else Some (''marker_'' @ (case marker_i m of None \<Rightarrow> ''undefined'' | Some n \<Rightarrow> decimal n)))"

definition duplicateMarkerAcrossDateLine :: "marker \<Rightarrow> marker list \<Rightarrow> marker list" where
  "duplicateMarkerAcrossDateLine m markersArray =
     (let duplicatedMarker = m
            \<lparr> marker_id := Some (id_text (marker_id m) @ ''_dateline''),
              lon := (if js_less (lon m) (Num 0)
                      then js_add (Num 180) (js_add (Num 180) (lon m))
                      else js_sub (Num (- 180)) (js_sub (Num 180) (lon m))) \<rparr>
      in markersArray @ [duplicatedMarker])"

definition beyondDateLine :: "marker \<Rightarrow> bool" where
  "beyondDateLine m = (js_less (lon m) (Num (- 140)) \<or> js_greater (lon m) (Num 140))"

text \<open>The first three statements of the \<^verbatim>\<open>forEach\<close> body of \<open>processMarkers\<close>.\<close>

definition addProperties :: "marker \<Rightarrow> marker" where
  "addProperties m =
     m \<lparr> marker_id := assignId m,
         iconNumber := map_option (\<lambda>n. n mod 16) (marker_i m),
         iconColor := map_option (\<lambda>n. n div 16) (marker_i m) \<rparr>"

text \<open>
  The \<^verbatim>\<open>forEach\<close> of \<open>processMarkers\<close>, over the accumulators
  \<^verbatim>\<open>markersWithCoords\<close> and \<^verbatim>\<open>markersWithoutCoords\<close>.
\<close>

fun separateByCoords ::
  "marker list \<Rightarrow> marker list \<times> marker list \<Rightarrow> marker list \<times> marker list" where
  "separateByCoords [] acc = acc"
| "separateByCoords (m0 # rest) (markersWithCoords, markersWithoutCoords) =
     (let m = addProperties m0 in
      if lat m = Null \<or> lon m = Null
      then separateByCoords rest (markersWithCoords, markersWithoutCoords @ [m])
      else separateByCoords rest
             (if beyondDateLine m
              then duplicateMarkerAcrossDateLine m (markersWithCoords @ [m])
              else markersWithCoords @ [m],
              markersWithoutCoords))"

definition clearAllMarkers :: "mstate \<Rightarrow> mstate" where
  "clearAllMarkers s = s \<lparr> markerInstances := [], surface := surface s @ [ClearLayers] \<rparr>"

text \<open>
  \<open>toggleClusterMode\<close> moves every handle to the other rendering target: it clears the
  layers and the map of handles, then adds each handle again and files it under its
  \<^verbatim>\<open>options.markerId\<close>.
\<close>

definition toggleClusterMode :: "mstate \<Rightarrow> bool \<Rightarrow> mstate" where
  "toggleClusterMode s enable =
     (if enable = currentClusterMode s then s
      else
        (let currentMarkers = map snd (markerInstances s);
             s1 = clearAllMarkers s;
             s2 = (if enable then s1 \<lparr> clusterGroup := True \<rparr> else s1);
             target = (if enable then ClusterGroup else MarkerLayer);
             s3 = fold (\<lambda>mk st.
                          st \<lparr> markerInstances := AList.update (optionsMarkerId mk) mk (markerInstances st),
                               surface := surface st @ [AddLayer target (optionsMarkerId mk)] \<rparr>)
                    currentMarkers s2
         in s3 \<lparr> currentClusterMode := enable \<rparr>))"

text \<open>
  The \<^verbatim>\<open>for\<close> loop of \<open>createSpecificMarkers\<close>. \<open>useCluster\<close> is whether the display mode
  of the coordinator, a non-empty string, contains \<^verbatim>\<open>cluster\<close>. A record whose position
  the library rejects, or whose popup cannot be built, ends the loop with the exception:
  nothing has been stored for it, and the records after it are not reached. The progress
  that the loop reports into the active slot of the coordinator is not part of this
  state.
\<close>

fun createLoop :: "renderer \<Rightarrow> mstate \<Rightarrow> bool \<Rightarrow> marker list \<Rightarrow> mstate \<times> completion" where
  "createLoop r s useCluster [] = (s, Returned)"
| "createLoop r s useCluster (markerData # rest) =
     (let lon' = normalizeCoordinates (lon markerData) in
      case latLng (lat markerData) lon' of
        Thrown e \<Rightarrow> (s, Thrown e)
      | Returned \<Rightarrow>
          (case createMarkerPopup r markerData lon' of
             Thrown e \<Rightarrow> (s, Thrown e)
           | Returned \<Rightarrow>
               (let mk = \<lparr> optionsMarkerId = marker_id markerData,
                           position = (lat markerData, lon'),
                           popup = markerData, popupOpen = False \<rparr>
                in createLoop r
                     (s \<lparr> markerInstances :=
                            AList.update (marker_id markerData) mk (markerInstances s),
                          surface := surface s @
                            [AddLayer (if useCluster then ClusterGroup else MarkerLayer)
                               (marker_id markerData)] \<rparr>)
                     useCluster rest)))"

definition createSpecificMarkers ::
  "renderer \<Rightarrow> mstate \<Rightarrow> bool \<Rightarrow> marker list \<Rightarrow> mstate \<times> completion" where
  "createSpecificMarkers r s useCluster markerList =
     (let s1 = (if useCluster \<noteq> currentClusterMode s then toggleClusterMode s useCluster else s)
      in createLoop r s1 useCluster markerList)"

definition createMarkers :: "renderer \<Rightarrow> mstate \<Rightarrow> bool \<Rightarrow> mstate \<times> completion" where
  "createMarkers r s useCluster =
     (let s1 = clearAllMarkers s in createSpecificMarkers r s1 useCluster (markers s1))"

text \<open>\<open>None\<close> is a marker list that is missing or not an array.\<close>

definition processMarkers ::
  "renderer \<Rightarrow> mstate \<Rightarrow> bool \<Rightarrow> marker list option \<Rightarrow> mstate \<times> completion" where
  "processMarkers r s useCluster markerList =
     (case markerList of
        None \<Rightarrow> (s, Returned)
      | Some l \<Rightarrow>
          createMarkers r (s \<lparr> markers := fst (separateByCoords l ([], [])) \<rparr>) useCluster)"

definition hasMarkerChanged :: "marker \<Rightarrow> marker \<Rightarrow> bool" where
  "hasMarkerChanged oldMarker newMarker =
     (if strict_ne (lat oldMarker) (lat newMarker) \<or> strict_ne (lon oldMarker) (lon newMarker)
      then True
      else if name oldMarker \<noteq> name newMarker then True
      else if strict_ne (var oldMarker) (var newMarker) then True
      else if marker_i oldMarker \<noteq> marker_i newMarker then True
      else False)"

text \<open>\<^verbatim>\<open>this.markers[index] = markerData\<close> at the first index whose id matches, if any.\<close>

fun replaceFirst :: "string option \<Rightarrow> marker \<Rightarrow> marker list \<Rightarrow> marker list" where
  "replaceFirst k markerData [] = []"
| "replaceFirst k markerData (m # ms) =
     (if marker_id m = k then markerData # ms else m # replaceFirst k markerData ms)"

text \<open>
  \<open>updateMarker\<close> moves the handle first, then builds the new popup, and writes the record
  into \<^verbatim>\<open>this.markers\<close> last. When \<^verbatim>\<open>setLatLng\<close> throws, nothing has changed; when the popup
  cannot be built, the handle has already been moved and keeps its old popup, and
  \<^verbatim>\<open>this.markers\<close> keeps the old record.
\<close>

definition updateMarker :: "renderer \<Rightarrow> mstate \<Rightarrow> marker \<Rightarrow> mstate \<times> completion" where
  "updateMarker r s markerData =
     (let markerId = marker_id markerData in
      case map_of (markerInstances s) markerId of
        None \<Rightarrow> (s, Returned)
      | Some mk \<Rightarrow>
          (let lon' = normalizeCoordinates (lon markerData) in
           case latLng (lat markerData) lon' of
             Thrown e \<Rightarrow> (s, Thrown e)
           | Returned \<Rightarrow>
               (let moved = mk \<lparr> position := (lat markerData, lon') \<rparr>;
                    s1 = s \<lparr> markerInstances := AList.update markerId moved (markerInstances s),
                             surface := surface s @ [UpdateHandle markerId] \<rparr>
                in case createMarkerPopup r markerData lon' of
                     Thrown e \<Rightarrow> (s1, Thrown e)
                   | Returned \<Rightarrow>
                       (s1 \<lparr> markerInstances :=
                               AList.update markerId (moved \<lparr> popup := markerData \<rparr>)
                                 (markerInstances s1),
                             markers := replaceFirst markerId markerData (markers s1) \<rparr>,
                        Returned))))"

definition removeMarker :: "mstate \<Rightarrow> string option \<Rightarrow> mstate" where
  "removeMarker s markerId =
     (case map_of (markerInstances s) markerId of
        None \<Rightarrow> s
      | Some mk \<Rightarrow>
          s \<lparr> markerInstances := AList.delete markerId (markerInstances s),
              markers := filter (\<lambda>m. marker_id m \<noteq> markerId) (markers s),
              surface := surface s @
                [RemoveLayer (if currentClusterMode s then ClusterGroup else MarkerLayer)
                   markerId] \<rparr>)"

text \<open>
  The body of the \<^verbatim>\<open>for ... of\<close> loop of \<open>updateChangedMarkers\<close>, over the module
  state, the array \<^verbatim>\<open>markersToAdd\<close> and the set \<^verbatim>\<open>markersToRemove\<close> (kept in insertion
  order); \<open>currentMarkersMap\<close> is built once before the loop. An exception of
  \<open>updateMarker\<close> leaves the loop, and with it \<open>updateChangedMarkers\<close>.
\<close>

definition changedStep ::
  "renderer \<Rightarrow> (string option \<rightharpoonup> marker) \<Rightarrow> marker \<Rightarrow>
   mstate \<times> marker list \<times> string option list \<Rightarrow>
   (mstate \<times> marker list \<times> string option list) \<times> completion"
  where
  "changedStep r currentMarkersMap m0 acc =
     (case acc of (s, markersToAdd, markersToRemove) \<Rightarrow>
        (let newMarker = m0 \<lparr> marker_id := assignId m0 \<rparr> in
         if lat newMarker = Null \<or> lon newMarker = Null
         then ((s, markersToAdd, markersToRemove), Returned)
         else
           (let markersToRemove' = removeAll (marker_id newMarker) markersToRemove in
            case currentMarkersMap (marker_id newMarker) of
              Some currentMarker \<Rightarrow>
                (if hasMarkerChanged currentMarker newMarker
                 then (case updateMarker r s newMarker of
                         (s', c) \<Rightarrow> ((s', markersToAdd, markersToRemove'), c))
                 else ((s, markersToAdd, markersToRemove'), Returned))
            | None \<Rightarrow>
                ((s,
                  if beyondDateLine newMarker
                  then duplicateMarkerAcrossDateLine newMarker (markersToAdd @ [newMarker])
                  else markersToAdd @ [newMarker],
                  markersToRemove'), Returned))))"

fun changedLoop ::
  "renderer \<Rightarrow> (string option \<rightharpoonup> marker) \<Rightarrow> marker list \<Rightarrow>
   mstate \<times> marker list \<times> string option list \<Rightarrow>
   (mstate \<times> marker list \<times> string option list) \<times> completion"
  where
  "changedLoop r currentMarkersMap [] acc = (acc, Returned)"
| "changedLoop r currentMarkersMap (m0 # rest) acc =
     (case changedStep r currentMarkersMap m0 acc of
        (acc', Thrown e) \<Rightarrow> (acc', Thrown e)
      | (acc', Returned) \<Rightarrow> changedLoop r currentMarkersMap rest acc')"

text \<open>
  A \<^verbatim>\<open>Map\<close> filled by \<^verbatim>\<open>set\<close> in list order keeps the last value of a key and lists
  the keys in order of first insertion.
\<close>

definition currentMap :: "marker list \<Rightarrow> (string option \<rightharpoonup> marker)" where
  "currentMap ms = map_of (rev (map (\<lambda>m. (marker_id m, m)) ms))"

definition currentKeys :: "marker list \<Rightarrow> string option list" where
  "currentKeys ms = rev (remdups (rev (map marker_id ms)))"

definition updateChangedMarkers ::
  "renderer \<Rightarrow> mstate \<Rightarrow> bool \<Rightarrow> marker list \<Rightarrow> mstate \<times> completion" where
  "updateChangedMarkers r s useCluster newMarkerList =
     (case changedLoop r (currentMap (markers s)) newMarkerList
             (s, [], currentKeys (markers s)) of
        ((s1, markersToAdd, markersToRemove), Thrown e) \<Rightarrow> (s1, Thrown e)
      | ((s1, markersToAdd, markersToRemove), Returned) \<Rightarrow>
          (let s2 = fold (\<lambda>idToRemove st. removeMarker st idToRemove) markersToRemove s1
           in if length markersToAdd > 0
              then createSpecificMarkers r
                     (s2 \<lparr> markers := filter (\<lambda>m. marker_id m \<notin> set markersToRemove) (markers s2)
                                        @ markersToAdd \<rparr>)
                     useCluster markersToAdd
              else (s2, Returned)))"

definition shouldRefreshAllMarkers :: "mstate \<Rightarrow> marker list \<Rightarrow> payload \<Rightarrow> bool" where
  "shouldRefreshAllMarkers s l data =
     (if \<bar>int (length (markers s)) - int (length l)\<bar> > 10 then True
      else if truthy (map_url data) \<or> truthy (refreshMode data) then True
      else False)"

text \<open>\<open>None\<close> is a payload that is \<^verbatim>\<open>null\<close> or absent.\<close>

definition updateMarkersFromData ::
  "renderer \<Rightarrow> mstate \<Rightarrow> bool \<Rightarrow> payload option \<Rightarrow> mstate \<times> completion" where
  "updateMarkersFromData r s useCluster data =
     (case data of
        None \<Rightarrow> (s, Returned)
      | Some d \<Rightarrow>
          (case list_p d of
             None \<Rightarrow> (s, Returned)
           | Some l \<Rightarrow>
               if shouldRefreshAllMarkers s l d then processMarkers r s useCluster (Some l)
               else updateChangedMarkers r s useCluster l))"

subsection \<open>realtimeManager\<close>

text \<open>
  The module state of the real-time manager, together with the host's timer table:
  \<open>pending\<close> lists the timeouts that are set and not yet fired or cleared, as pairs of
  handle and delay, and \<open>issued\<close> counts the handles handed out so far (\<^verbatim>\<open>setTimeout\<close>
  returns a fresh positive integer). The flags \<^verbatim>\<open>isReady\<close> and \<^verbatim>\<open>userInteracting\<close> of the
  coordinator are read when a timeout fires and are arguments of \<open>timerFired\<close>. The
  writes to \<^verbatim>\<open>realtimeInterval\<close> and \<^verbatim>\<open>lastUpdateTime\<close> of the coordinator object are
  not part of this state.
\<close>

record poller =
  updateTimer :: "nat option"
  lastUpdateTime :: "nat option"
  isUpdating :: bool
  updateInterval :: nat
  retryInterval :: nat
  maxConsecutiveErrors :: nat
  errorCount :: nat
  pending :: "(nat \<times> nat) list"
  issued :: nat

definition timerSet :: "nat option \<Rightarrow> bool" where
  "timerSet t = (case t of None \<Rightarrow> False | Some h \<Rightarrow> h \<noteq> 0)"

definition clearTimeout :: "nat option \<Rightarrow> poller \<Rightarrow> poller" where
  "clearTimeout t p =
     (case t of None \<Rightarrow> p | Some h \<Rightarrow> p \<lparr> pending := filter (\<lambda>e. fst e \<noteq> h) (pending p) \<rparr>)"

definition scheduleNextUpdate :: "poller \<Rightarrow> nat option \<Rightarrow> poller" where
  "scheduleNextUpdate p delay =
     (let nextDelay = (case delay of Some d \<Rightarrow> d | None \<Rightarrow> updateInterval p);
          h = Suc (issued p)
      in p \<lparr> updateTimer := Some h, pending := pending p @ [(h, nextDelay)], issued := h \<rparr>)"

definition stopUpdates :: "poller \<Rightarrow> poller" where
  "stopUpdates p =
     (if timerSet (updateTimer p)
      then (clearTimeout (updateTimer p) p) \<lparr> updateTimer := None \<rparr>
      else p)"

text \<open>\<open>interval\<close> is \<^verbatim>\<open>options.interval\<close>; \<open>None\<close> and \<open>0\<close> are falsy.\<close>

definition startUpdates :: "poller \<Rightarrow> nat option \<Rightarrow> poller" where
  "startUpdates p interval =
     (let p1 = stopUpdates p;
          p2 = (case interval of
                  Some iv \<Rightarrow> if iv \<noteq> 0 then p1 \<lparr> updateInterval := iv \<rparr> else p1
                | None \<Rightarrow> p1)
      in scheduleNextUpdate p2 (Some 0))"

text \<open>
  What the body of the \<^verbatim>\<open>try\<close> block of \<open>performUpdate\<close> meets: no data to apply, the
  markers updated, or an exception. \<open>update_exit\<close> names the \<^verbatim>\<open>return\<close> statement
  reached; the \<^verbatim>\<open>finally\<close> block runs after each of them.
\<close>

datatype update_outcome = NoData | Updated | Failed

datatype update_exit = ReturnNoData | ReturnPaused | ReturnEnd

text \<open>\<open>external\<close> tells whether a coordinator argument was passed.\<close>

definition performUpdate ::
  "poller \<Rightarrow> bool \<Rightarrow> update_outcome \<Rightarrow> nat \<Rightarrow> poller \<times> update_exit" where
  "performUpdate p external outcome now =
     (let p1 = p \<lparr> isUpdating := True \<rparr>;
          (p2, exit) =
            (case outcome of
               NoData \<Rightarrow> (p1, ReturnNoData)
             | Updated \<Rightarrow> (p1 \<lparr> lastUpdateTime := Some now, errorCount := 0 \<rparr>, ReturnEnd)
             | Failed \<Rightarrow>
                 (let p1' = p1 \<lparr> errorCount := errorCount p1 + 1 \<rparr>
                  in if errorCount p1' \<ge> maxConsecutiveErrors p1'
                     then (p1', ReturnPaused) else (p1', ReturnEnd)));
          p3 = p2 \<lparr> isUpdating := False \<rparr>
      in (if \<not> external \<and> timerSet (updateTimer p3) then scheduleNextUpdate p3 None else p3,
          exit))"

text \<open>The callback given to \<^verbatim>\<open>setTimeout\<close>, run when the timeout with handle \<open>h\<close> fires.\<close>

definition timerFired ::
  "poller \<Rightarrow> nat \<Rightarrow> bool \<Rightarrow> bool \<Rightarrow> update_outcome \<Rightarrow> nat \<Rightarrow> poller" where
  "timerFired p h isReady userInteracting outcome now =
     (if h \<in> fst ` set (pending p)
      then (let p1 = p \<lparr> pending := filter (\<lambda>e. fst e \<noteq> h) (pending p) \<rparr>
            in if isReady \<and> \<not> userInteracting
               then fst (performUpdate p1 False outcome now)
               else scheduleNextUpdate p1 None)
      else p)"

definition forceUpdate :: "poller \<Rightarrow> update_outcome \<Rightarrow> nat \<Rightarrow> poller" where
  "forceUpdate p outcome now =
     (let p1 = (if timerSet (updateTimer p)
                then (clearTimeout (updateTimer p) p) \<lparr> updateTimer := None \<rparr> else p)
      in scheduleNextUpdate (fst (performUpdate p1 False outcome now)) None)"

text \<open>The module object as it is declared.\<close>

definition realtimeManager :: poller where
  "realtimeManager =
     \<lparr> updateTimer = None, lastUpdateTime = None, isUpdating = False,
       updateInterval = 5000, retryInterval = 10000, maxConsecutiveErrors = 3,
       errorCount = 0, pending = [], issued = 0 \<rparr>"

subsection \<open>mapCoordinator: the state\<close>

text \<open>
  The active slot \<^verbatim>\<open>currentEvent\<close> (fields \<^verbatim>\<open>type\<close> and \<^verbatim>\<open>data\<close> are called \<open>etype\<close> and
  \<open>edata\<close>), the queue entries and the part of the coordinator object that the event
  system reads or writes. \<open>None\<close> is \<^verbatim>\<open>null\<close>, or a field the object does not have (the
  idle slot has no \<^verbatim>\<open>priority\<close>). Event payloads are of an arbitrary type \<open>'d\<close>. Every
  \<^verbatim>\<open>Date.now()\<close> of one synchronous call reads the argument \<open>now\<close>.
\<close>

datatype component = Component

datatype action_name = Named string | Inherited string

record 'd current_event =
  etype :: "string option"
  action :: "action_name option"
  startTime :: "nat option"
  isInterruptible :: bool
  priority :: "string option"
  progress :: nat
  edata :: "'d option"

record 'd queued_event =
  q_type :: string
  q_data :: "'d option"
  q_priority :: string
  q_timestamp :: nat

record error_info =
  err_code :: nat
  err_message :: string

record 'd user_event =
  u_type :: "string option"
  u_timestamp :: "nat option"
  u_data :: "'d option"

text \<open>
  What \<open>executeEvent\<close> does with the active event: it logs an error and completes at once
  when no component is registered, hands the event to the downstream operation of its
  type (an asynchronous call), or warns about an unknown type and completes at once.
  \<open>executed\<close> lists the runs of \<open>executeEvent\<close>, each with the type and data of the event
  that was active, as a spy on the dispatcher would record them; \<open>stopRequests\<close> counts
  the calls of \<^verbatim>\<open>stopUpdates\<close> issued to the real-time manager. Neither is a field of the
  source object.
\<close>

datatype route = NoComponent | Downstream | UnknownType

record 'd coordinator =
  state :: string
  errorInfo :: error_info
  currentEvent :: "'d current_event"
  eventQueue :: "'d queued_event list"
  lastUserEvent :: "'d user_event"
  componentInstance :: "component option"
  executed :: "(route \<times> string option \<times> 'd option) list"
  stopRequests :: nat

subsection \<open>mapCoordinator: the operations\<close>

definition eventActionMap :: "(string \<times> string) list" where
  "eventActionMap =
     [(''data_update'', ''updateMap''),
      (''process_markers'', ''processMarkers''),
      (''user_zoom_change'', ''handleZoomChange''),
      (''user_bounds_change'', ''handleBoundsChange''),
      (''user_center_change'', ''handleCenterChange''),
      (''marker_click'', ''handleMarkerClick''),
      (''marker_hover'', ''handleMarkerHover''),
      (''realtime_update'', ''handleRealtimeUpdate''),
      (''update_icon_sizes'', ''updateIconSizes''),
      (''update_tooltip_state'', ''updateTooltipState''),
      (''update_marker_mode'', ''updateMarkerMode'')]"

text \<open>
  A lookup in an object literal also finds the members every object inherits; they are
  truthy, so the default \<^verbatim>\<open>'unknownAction'\<close> does not replace them.
\<close>

definition objectPrototypeKeys :: "string list" where
  "objectPrototypeKeys =
     [''constructor'', ''hasOwnProperty'', ''isPrototypeOf'', ''propertyIsEnumerable'',
      ''toLocaleString'', ''toString'', ''valueOf'', ''__proto__'',
      ''__defineGetter__'', ''__defineSetter__'', ''__lookupGetter__'', ''__lookupSetter__'']"

definition determineAction :: "string \<Rightarrow> action_name" where
  "determineAction eventType =
     (case map_of eventActionMap eventType of
        Some a \<Rightarrow> Named a
      | None \<Rightarrow> if eventType \<in> set objectPrototypeKeys then Inherited eventType
                else Named ''unknownAction'')"

definition nonInterruptibleEvents :: "string list" where
  "nonInterruptibleEvents = [''initialization'', ''error_handling'']"

text \<open>
  \<open>isEventInterruptible\<close> reads \<^verbatim>\<open>this.currentEvent\<close>, where \<^verbatim>\<open>this\<close> is the module object
  \<^verbatim>\<open>mapCoordinator\<close>, not the coordinator state; the module object declares no such
  property. \<open>moduleCurrentEventPriority\<close> is the priority found there: none.
\<close>

definition moduleCurrentEventPriority :: "string option" where
  "moduleCurrentEventPriority = None"

definition isEventInterruptible :: "string \<Rightarrow> bool" where
  "isEventInterruptible eventType =
     (if moduleCurrentEventPriority = Some ''critical'' then True
      else eventType \<notin> set nonInterruptibleEvents)"

text \<open>The types that the \<^verbatim>\<open>switch\<close> of \<open>executeEvent\<close> routes to a downstream module.\<close>

definition routedTypes :: "string list" where
  "routedTypes =
     [''data_update'', ''process_markers'', ''update_icon_sizes'', ''update_tooltip_state'',
      ''update_marker_mode'', ''user_zoom_change'', ''user_bounds_change'',
      ''user_center_change'', ''realtime_update'']"

definition idleEvent :: "'d current_event" where
  "idleEvent =
     \<lparr> etype = None, action = None, startTime = None, isInterruptible = True,
       priority = None, progress = 0, edata = None \<rparr>"

text \<open>
  The comparator given to \<^verbatim>\<open>Array.prototype.sort\<close> in \<open>eventCompleted\<close>. The language
  requires \<^verbatim>\<open>sort\<close> to be stable; the comparator is a consistent ordering of two tiers, so
  the sorted array is determined, and a stable insertion sort computes it.
\<close>

definition comparePriority :: "'d queued_event \<Rightarrow> 'd queued_event \<Rightarrow> int" where
  "comparePriority a b =
     (if q_priority a = ''high'' \<and> q_priority b \<noteq> ''high'' then - 1
      else if q_priority b = ''high'' \<and> q_priority a \<noteq> ''high'' then 1
      else 0)"

fun insertBy :: "('a \<Rightarrow> 'a \<Rightarrow> int) \<Rightarrow> 'a \<Rightarrow> 'a list \<Rightarrow> 'a list" where
  "insertBy cmp x [] = [x]"
| "insertBy cmp x (y # ys) = (if cmp x y \<le> 0 then x # y # ys else y # insertBy cmp x ys)"

fun stableSort :: "('a \<Rightarrow> 'a \<Rightarrow> int) \<Rightarrow> 'a list \<Rightarrow> 'a list" where
  "stableSort cmp [] = []"
| "stableSort cmp (x # xs) = insertBy cmp x (stableSort cmp xs)"

definition truthyType :: "string option \<Rightarrow> string option" where
  "truthyType t = (case t of None \<Rightarrow> None | Some ty \<Rightarrow> if ty = [] then None else Some ty)"

text \<open>The expression \<^verbatim>\<open>interruptedEvent.priority || 'normal'\<close>.\<close>

definition priorityOrNormal :: "string option \<Rightarrow> string" where
  "priorityOrNormal p = (case p of None \<Rightarrow> ''normal'' | Some s \<Rightarrow> if s = [] then ''normal'' else s)"

definition createCoordinator :: "'d coordinator" where
  "createCoordinator =
     \<lparr> state = ''initializing'',
       errorInfo = \<lparr> err_code = 0, err_message = [] \<rparr>,
       currentEvent = idleEvent,
       eventQueue = [],
       lastUserEvent = \<lparr> u_type = None, u_timestamp = None, u_data = None \<rparr>,
       componentInstance = None,
       executed = [],
       stopRequests = 0 \<rparr>"

definition registerEvents :: "'d coordinator \<Rightarrow> component \<Rightarrow> 'd coordinator" where
  "registerEvents c componentInstance' = c \<lparr> componentInstance := Some componentInstance' \<rparr>"

definition unregisterEvents :: "'d coordinator \<Rightarrow> 'd coordinator" where
  "unregisterEvents c = c \<lparr> componentInstance := None \<rparr>"

lemma length_insertBy [simp]: "length (insertBy cmp x ys) = Suc (length ys)"
  by (induction ys) simp_all

lemma length_stableSort [simp]: "length (stableSort cmp xs) = length xs"
  by (induction xs) simp_all

text \<open>
  \<open>startEvent\<close> builds the active slot and calls \<open>executeEvent\<close>; \<open>executeEvent\<close> calls
  \<open>eventCompleted\<close> at once when it has nothing to wait for; \<open>eventCompleted\<close> starts the
  next queued event. The three call each other until an event is handed to a downstream
  module or the queue is empty.
\<close>

function startEvent ::
    "'d coordinator \<Rightarrow> string \<Rightarrow> 'd option \<Rightarrow> string \<Rightarrow> nat \<Rightarrow> 'd coordinator"
  and executeEvent :: "'d coordinator \<Rightarrow> nat \<Rightarrow> 'd coordinator"
  and eventCompleted :: "'d coordinator \<Rightarrow> nat \<Rightarrow> 'd coordinator"
  where
  "startEvent c eventType eventData prio now =
     executeEvent
       (c \<lparr> currentEvent :=
              \<lparr> etype = Some eventType,
                action = Some (determineAction eventType),
                startTime = Some now,
                isInterruptible = isEventInterruptible eventType,
                priority = Some prio,
                progress = 0,
                edata = eventData \<rparr> \<rparr>)
       now"
| "executeEvent c now =
     (let ty = etype (currentEvent c); d = edata (currentEvent c) in
      if componentInstance c = None
      then eventCompleted (c \<lparr> executed := executed c @ [(NoComponent, ty, d)] \<rparr>) now
      else if ty \<in> Some ` set routedTypes
      then c \<lparr> executed := executed c @ [(Downstream, ty, d)] \<rparr>
      else eventCompleted (c \<lparr> executed := executed c @ [(UnknownType, ty, d)] \<rparr>) now)"
| "eventCompleted c now =
     (let c1 = c \<lparr> currentEvent := idleEvent \<rparr> in
      if length (eventQueue c1) > 0
      then (case stableSort comparePriority (eventQueue c1) of
              nextEvent # rest \<Rightarrow>
                startEvent (c1 \<lparr> eventQueue := rest \<rparr>) (q_type nextEvent) (q_data nextEvent)
                  ''normal'' now
            | [] \<Rightarrow> c1)
      else c1)"
  by pat_completeness auto
termination
proof (relation "measure (\<lambda>x. case x of
          Inl (c, _) \<Rightarrow> 3 * length (eventQueue c) + 3
        | Inr (Inl (c, _)) \<Rightarrow> 3 * length (eventQueue c) + 2
        | Inr (Inr (c, _)) \<Rightarrow> 3 * length (eventQueue c) + 1)", goal_cases)
  case 1
  show ?case by simp
next
  case (2 c eventType eventData prio now)
  show ?case by simp
next
  case (3 c now ty d)
  show ?case by simp
next
  case (4 c now ty d)
  show ?case by simp
next
  case (5 c now c1 nextEvent rest)
  have "length (stableSort comparePriority (eventQueue c1)) = length (eventQueue c1)"
    by simp
  with 5 have "Suc (length rest) = length (eventQueue c)" by simp
  then show ?case by simp
qed

declare startEvent.simps [simp del] executeEvent.simps [simp del] eventCompleted.simps [simp del]

text \<open>
  The entry that \<open>queueEvent\<close> puts at the front of the queue for the event it interrupts:
  the type and data of the active slot, with the priority given.
\<close>

definition interruptedEntry :: "'d coordinator \<Rightarrow> string \<Rightarrow> string \<Rightarrow> nat \<Rightarrow> 'd queued_event" where
  "interruptedEntry c t prio now =
     \<lparr> q_type = t, q_data = edata (currentEvent c), q_priority = prio, q_timestamp = now \<rparr>"

definition queueEvent ::
  "'d coordinator \<Rightarrow> string \<Rightarrow> 'd option \<Rightarrow> string \<Rightarrow> nat \<Rightarrow> 'd coordinator" where
  "queueEvent c eventType eventData prio now =
     (if prio = ''critical''
      then
        (let c1 = (case truthyType (etype (currentEvent c)) of
                     Some t \<Rightarrow>
                       c \<lparr> eventQueue :=
                             interruptedEntry c t (priorityOrNormal (priority (currentEvent c))) now
                             # eventQueue c \<rparr>
                   | None \<Rightarrow> c);
             c2 = (if eventType = ''update_marker_mode''
                   then c1 \<lparr> stopRequests := stopRequests c1 + 1 \<rparr> else c1)
         in startEvent c2 eventType eventData prio now)
      else
        (case truthyType (etype (currentEvent c)) of
           None \<Rightarrow> startEvent c eventType eventData ''normal'' now
         | Some t \<Rightarrow>
             if (prio = ''high'' \<or> take 5 eventType = ''user_'')
                \<and> isInterruptible (currentEvent c)
             then startEvent
                    (c \<lparr> eventQueue := interruptedEntry c t ''high'' now # eventQueue c \<rparr>)
                    eventType eventData ''normal'' now
             else
               (let c1 = c \<lparr> eventQueue := eventQueue c @
                               [\<lparr> q_type = eventType, q_data = eventData,
                                  q_priority = prio, q_timestamp = now \<rparr>] \<rparr>
                in if take 5 eventType = ''user_''
                   then c1 \<lparr> lastUserEvent :=
                              \<lparr> u_type = Some eventType, u_timestamp = Some now,
                                u_data = eventData \<rparr> \<rparr>
                   else c1)))"

text \<open>The text of \<^verbatim>\<open>${coordinator.currentEvent.type}\<close> inside the error message.\<close>

definition typeText :: "string option \<Rightarrow> string" where
  "typeText t = (case t of None \<Rightarrow> ''null'' | Some ty \<Rightarrow> ty)"

text \<open>\<open>msg\<close> is \<^verbatim>\<open>error.message\<close>, the message of the error object.\<close>

definition handleEventError :: "'d coordinator \<Rightarrow> string \<Rightarrow> nat \<Rightarrow> 'd coordinator" where
  "handleEventError c msg now =
     eventCompleted
       (c \<lparr> errorInfo := \<lparr> err_code = 500,
                            err_message = ''Error in event '' @ typeText (etype (currentEvent c))
                                          @ '': '' @ msg \<rparr>,
            state := ''error'' \<rparr>)
       now"

text \<open>
  The promise of a downstream operation settles: \<^verbatim>\<open>.then\<close> calls \<open>eventCompleted\<close>,
  \<^verbatim>\<open>.catch\<close> calls \<open>handleEventError\<close> with the error. (The call of the operation reads a
  property of the event data for most types, such as \<^verbatim>\<open>data.data\<close> or \<^verbatim>\<open>data.markers\<close>: an
  event that reaches this point carries an object as its data.)
\<close>

datatype settlement = Fulfilled | Rejected string

definition downstreamSettled :: "'d coordinator \<Rightarrow> settlement \<Rightarrow> nat \<Rightarrow> 'd coordinator" where
  "downstreamSettled c r now =
     (case r of Fulfilled \<Rightarrow> eventCompleted c now | Rejected msg \<Rightarrow> handleEventError c msg now)"

subsection \<open>Notions used in the statements\<close>

text \<open>
  What one incoming record contributes to the live list in a full rebuild; a record that
  passes the test on its coordinates; a record with its id assigned; what one pass of the
  loop of \<open>updateChangedMarkers\<close> stages for creation; and the calls that a refresh adds
  to the record of the rendering surface.
\<close>

definition liveEntries :: "marker \<Rightarrow> marker list" where
  "liveEntries m0 =
     (let m = addProperties m0 in
      if lat m = Null \<or> lon m = Null then []
      else if beyondDateLine m then duplicateMarkerAcrossDateLine m [m] else [m])"

definition validNew :: "marker \<Rightarrow> bool" where
  "validNew m0 = (lat m0 \<noteq> Null \<and> lon m0 \<noteq> Null)"

definition withId :: "marker \<Rightarrow> marker" where
  "withId m0 = m0 \<lparr> marker_id := assignId m0 \<rparr>"

definition stepAdds :: "(string option \<rightharpoonup> marker) \<Rightarrow> marker \<Rightarrow> marker list" where
  "stepAdds cur m0 =
     (if validNew m0 \<and> cur (assignId m0) = None
      then (if beyondDateLine (withId m0)
            then duplicateMarkerAcrossDateLine (withId m0) [withId m0] else [withId m0])
      else [])"

definition newCalls :: "mstate \<Rightarrow> mstate \<Rightarrow> surface_call list" where
  "newCalls s s' = drop (length (surface s)) (surface s')"

text \<open>
  A later state \<open>s'\<close> continues \<open>s\<close> without clearing when it has the same cluster mode and
  its record of the rendering surface is that of \<open>s\<close> followed by calls none of which
  clears the layers.
\<close>

definition noClear :: "mstate \<Rightarrow> mstate \<Rightarrow> bool" where
  "noClear s s' =
     (currentClusterMode s' = currentClusterMode s
      \<and> take (length (surface s)) (surface s') = surface s
      \<and> ClearLayers \<notin> set (newCalls s s'))"

text \<open>
  A queue entry is in the high tier when its priority is \<^verbatim>\<open>'high'\<close>. The entries of a
  queue \<open>q\<close> are conserved in a later state \<open>r\<close> whose dispatcher ran \<open>xs\<close> in between when
  each of them is still queued in \<open>r\<close> or was handed to the dispatcher. A coordinator is
  settled when it is idle with an empty queue, or its active event has just been handed
  to a downstream module.
\<close>

definition isHigh :: "'d queued_event \<Rightarrow> bool" where
  "isHigh e = (q_priority e = ''high'')"

definition conserved ::
  "'d queued_event list \<Rightarrow> 'd coordinator \<Rightarrow> (route \<times> string option \<times> 'd option) list \<Rightarrow> bool"
  where
  "conserved q r xs =
     (\<forall>e \<in> set q. e \<in> set (eventQueue r) \<or> (Some (q_type e), q_data e) \<in> snd ` set xs)"

definition settled :: "'d coordinator \<Rightarrow> bool" where
  "settled r =
     ((currentEvent r = idleEvent \<and> eventQueue r = [])
      \<or> (etype (currentEvent r) \<in> Some ` set routedTypes \<and> executed r \<noteq> []
          \<and> last (executed r) = (Downstream, etype (currentEvent r), edata (currentEvent r))))"

subsection \<open>Concrete states\<close>

text \<open>
  A renderer in \<^verbatim>\<open>'num_state'\<close> mode whose component has no position formatter; a manager
  without markers; a marker record with a given id, longitude and \<^verbatim>\<open>var\<close>; a record
  without id, with a given index, longitude and \<^verbatim>\<open>var\<close>; the live set that a full rebuild
  makes of two such records away from the date line, and of two such records near it; a
  record without \<^verbatim>\<open>lat\<close> and without \<^verbatim>\<open>id\<close>.
\<close>

definition plainRenderer :: renderer where
  "plainRenderer = \<lparr> numStateMode = True, positionFormatter = None \<rparr>"

definition emptyManager :: mstate where
  "emptyManager =
     \<lparr> markers = [], markerInstances = [], currentClusterMode = False, clusterGroup = False,
       surface = [] \<rparr>"

definition site :: "string \<Rightarrow> rat \<Rightarrow> rat \<Rightarrow> marker" where
  "site k x v =
     \<lparr> marker_id = Some k, marker_i = None, lat = Num 10, lon = Num x,
       name = Some ''site'', var = Num v, iconNumber = None, iconColor = None \<rparr>"

definition station :: "nat \<Rightarrow> rat \<Rightarrow> rat \<Rightarrow> marker" where
  "station n x v =
     \<lparr> marker_id = None, marker_i = Some n, lat = Num 10, lon = Num x,
       name = Some ''station'', var = Num v, iconNumber = None, iconColor = None \<rparr>"

definition twoStations :: mstate where
  "twoStations =
     fst (processMarkers plainRenderer emptyManager False
            (Some [station 0 20 1, station 1 30 2]))"


definition noLatitude :: marker where
  "noLatitude =
     \<lparr> marker_id = None, marker_i = Some 7, lat = Undefined, lon = Num 5,
       name = Some ''buoy'', var = Num 0, iconNumber = None, iconColor = None \<rparr>"

text \<open>
  A coordinator with a registered component that is running a \<^verbatim>\<open>data_update\<close>. The same
  after three more submissions: a normal one, which is queued; a high one, which
  interrupts the \<^verbatim>\<open>data_update\<close>; and a critical one, which interrupts that. Its queue
  then holds a normal, a high and a normal entry, in this order. Last, a poller after two
  and after three failed ticks.
\<close>

definition exampleBusy :: "nat coordinator" where
  "exampleBusy =
     queueEvent (registerEvents createCoordinator Component) ''data_update'' (Some 1)
       ''normal'' 100"

definition exampleBacklog :: "nat coordinator" where
  "exampleBacklog =
     queueEvent
       (queueEvent
          (queueEvent exampleBusy ''update_tooltip_state'' (Some 10) ''normal'' 101)
          ''user_zoom_change'' (Some 11) ''high'' 102)
       ''update_marker_mode'' (Some 12) ''critical'' 103"

definition twoFailures :: poller where
  "twoFailures =
     timerFired (timerFired (startUpdates realtimeManager None) 1 True False Failed 10)
       2 True False Failed 20"

definition threeFailures :: poller where
  "threeFailures = timerFired twoFailures 3 True False Failed 30"

section \<open>Icon sizes\<close>

text \<open>
  C9. Icon size never grows with the zoom level: for zoom levels \<open>z1 \<le> z2\<close> the width
  and the height computed by \<open>calculateIconSizes\<close> at \<open>z2\<close> are at most those at
  \<open>z1\<close>, for the regular icon and for the satellite icon.
\<close>

theorem calculateIconSizes_antimono:
  assumes "z1 \<le> z2"
  shows "size_le (icon_size (icon (calculateIconSizes z2)))
                 (icon_size (icon (calculateIconSizes z1)))
       \<and> size_le (icon_size (satellite (calculateIconSizes z2)))
                 (icon_size (satellite (calculateIconSizes z1)))"
  using assms
  by (simp add: calculateIconSizes_def mk_profile_def size_le_def)

theorem calculateIconSizes_antimono_witness:
  "(6 :: rat) \<le> 11
   \<and> icon_size (icon (calculateIconSizes 6)) = (40, 40)
   \<and> icon_size (icon (calculateIconSizes 11)) = (24, 24)
   \<and> size_le (icon_size (icon (calculateIconSizes 11)))
             (icon_size (icon (calculateIconSizes 6)))
   \<and> size_le (icon_size (satellite (calculateIconSizes 11)))
             (icon_size (satellite (calculateIconSizes 6)))"
  using calculateIconSizes_antimono [of 6 11]
  by (simp add: calculateIconSizes_def mk_profile_def)

section \<open>Marker reconciliation\<close>

subsection \<open>Completions and the record of the rendering surface\<close>

lemma not_Returned: "(c \<noteq> Returned) = (\<exists>e. c = Thrown e)"
  by (cases c) auto

lemma absent_rejected:
  "lat m = Undefined \<or> lon m = Undefined \<Longrightarrow>
     latLng (lat m) (normalizeCoordinates (lon m)) = Thrown InvalidLatLng"
  by (auto simp: latLng_def normalizeCoordinates_def js_greater_def js_less_def to_number_def)

lemma noClear_iff:
  "noClear s s' =
     (currentClusterMode s' = currentClusterMode s
      \<and> (\<exists>xs. surface s' = surface s @ xs \<and> ClearLayers \<notin> set xs))"
proof
  assume a: "noClear s s'"
  then have "surface s' = surface s @ newCalls s s'"
    unfolding noClear_def newCalls_def by (metis append_take_drop_id)
  with a show "currentClusterMode s' = currentClusterMode s
      \<and> (\<exists>xs. surface s' = surface s @ xs \<and> ClearLayers \<notin> set xs)"
    unfolding noClear_def by blast
next
  assume "currentClusterMode s' = currentClusterMode s
      \<and> (\<exists>xs. surface s' = surface s @ xs \<and> ClearLayers \<notin> set xs)"
  then show "noClear s s'" by (auto simp: noClear_def newCalls_def)
qed

lemma noClear_refl [simp]: "noClear s s"
  by (simp add: noClear_iff)

lemma noClear_trans: "noClear s s1 \<Longrightarrow> noClear s1 s2 \<Longrightarrow> noClear s s2"
  unfolding noClear_iff by (elim conjE exE) (auto intro: exI [of _ "_ @ _"])

lemma noClear_markers [simp]: "noClear s (s' \<lparr> markers := ms \<rparr>) = noClear s s'"
  by (simp add: noClear_def newCalls_def)

subsection \<open>Full rebuild\<close>

lemma separateByCoords_fst:
  "fst (separateByCoords ms (w, wo)) = w @ concat (map liveEntries ms)"
  by (induction ms arbitrary: w wo)
     (auto simp: liveEntries_def Let_def duplicateMarkerAcrossDateLine_def)

lemma createLoop_Cons:
  "createLoop r s u (m # l) =
     (if latLng (lat m) (normalizeCoordinates (lon m)) = Returned
         \<and> createMarkerPopup r m (normalizeCoordinates (lon m)) = Returned
      then createLoop r
             (s \<lparr> markerInstances :=
                    AList.update (marker_id m)
                      \<lparr> optionsMarkerId = marker_id m,
                        position = (lat m, normalizeCoordinates (lon m)),
                        popup = m, popupOpen = False \<rparr> (markerInstances s),
                  surface := surface s @
                    [AddLayer (if u then ClusterGroup else MarkerLayer) (marker_id m)] \<rparr>)
             u l
      else (s, if latLng (lat m) (normalizeCoordinates (lon m)) = Returned
               then createMarkerPopup r m (normalizeCoordinates (lon m))
               else latLng (lat m) (normalizeCoordinates (lon m))))"
  by (simp add: Let_def split: completion.splits)

lemma createLoop_markers [simp]: "markers (fst (createLoop r s u l)) = markers s"
  by (induction l arbitrary: s) (simp_all add: createLoop_Cons del: createLoop.simps(2))

lemma createLoop_noClear: "noClear s (fst (createLoop r s u l))"
proof (induction l arbitrary: s)
  case Nil
  show ?case by simp
next
  case (Cons m l)
  let ?s1 = "s \<lparr> markerInstances :=
                   AList.update (marker_id m)
                     \<lparr> optionsMarkerId = marker_id m,
                       position = (lat m, normalizeCoordinates (lon m)),
                       popup = m, popupOpen = False \<rparr> (markerInstances s),
                 surface := surface s @
                   [AddLayer (if u then ClusterGroup else MarkerLayer) (marker_id m)] \<rparr>"
  have "noClear s ?s1" by (simp add: noClear_iff)
  then have "noClear s (fst (createLoop r ?s1 u l))"
    using Cons [of ?s1] by (rule noClear_trans)
  then show ?case by (simp add: createLoop_Cons del: createLoop.simps(2))
qed

lemma createLoop_returned:
  "snd (createLoop r s u l) = Returned \<Longrightarrow>
     \<forall>m \<in> set l. latLng (lat m) (normalizeCoordinates (lon m)) = Returned"
  by (induction l arbitrary: s) (auto simp: Let_def split: completion.splits)

lemma createLoop_keys_kept:
  "map_of (markerInstances s) k \<noteq> None \<Longrightarrow>
     map_of (markerInstances (fst (createLoop r s u l))) k \<noteq> None"
  by (induction l arbitrary: s) (auto simp: Let_def update_conv' split: completion.splits)

lemma createLoop_returned_handles:
  "snd (createLoop r s u l) = Returned \<Longrightarrow>
     \<forall>m \<in> set l. map_of (markerInstances (fst (createLoop r s u l))) (marker_id m) \<noteq> None"
proof (induction l arbitrary: s)
  case Nil
  show ?case by simp
next
  case (Cons m l)
  let ?s1 = "s \<lparr> markerInstances :=
                   AList.update (marker_id m)
                     \<lparr> optionsMarkerId = marker_id m,
                       position = (lat m, normalizeCoordinates (lon m)),
                       popup = m, popupOpen = False \<rparr> (markerInstances s),
                 surface := surface s @
                   [AddLayer (if u then ClusterGroup else MarkerLayer) (marker_id m)] \<rparr>"
  from Cons.prems have eq: "createLoop r s u (m # l) = createLoop r ?s1 u l"
    by (auto simp: Let_def split: completion.splits)
  with Cons.prems have ret: "snd (createLoop r ?s1 u l) = Returned" by simp
  have "map_of (markerInstances ?s1) (marker_id m) \<noteq> None" by (simp add: update_conv')
  then have "map_of (markerInstances (fst (createLoop r ?s1 u l))) (marker_id m) \<noteq> None"
    by (rule createLoop_keys_kept)
  with Cons.IH [OF ret] eq show ?case by simp
qed

lemma set_update_cases:
  "(k', v') \<in> set (AList.update k v al) \<Longrightarrow> (k', v') = (k, v) \<or> (k', v') \<in> set al"
  by (induction al) (auto split: if_splits)

lemma createLoop_built:
  "(k, h) \<in> set (markerInstances (fst (createLoop r s u l))) \<Longrightarrow>
     (k, h) \<in> set (markerInstances s)
     \<or> latLng (lat (popup h)) (normalizeCoordinates (lon (popup h))) = Returned"
proof (induction l arbitrary: s)
  case Nil
  then show ?case by simp
next
  case (Cons m l)
  show ?case
  proof (cases "latLng (lat m) (normalizeCoordinates (lon m)) = Returned
                \<and> createMarkerPopup r m (normalizeCoordinates (lon m)) = Returned")
    case False
    then have "fst (createLoop r s u (m # l)) = s"
      by (auto simp: Let_def not_Returned split: completion.splits)
    with Cons.prems show ?thesis by simp
  next
    case True
    let ?mk = "\<lparr> optionsMarkerId = marker_id m,
                  position = (lat m, normalizeCoordinates (lon m)),
                  popup = m, popupOpen = False \<rparr>"
    let ?s1 = "s \<lparr> markerInstances := AList.update (marker_id m) ?mk (markerInstances s),
                   surface := surface s @
                     [AddLayer (if u then ClusterGroup else MarkerLayer) (marker_id m)] \<rparr>"
    from True have eq: "createLoop r s u (m # l) = createLoop r ?s1 u l"
      by (simp add: Let_def)
    with Cons.prems have "(k, h) \<in> set (markerInstances (fst (createLoop r ?s1 u l)))" by simp
    from Cons.IH [OF this] show ?thesis
    proof
      assume "(k, h) \<in> set (markerInstances ?s1)"
      then have "(k, h) = (marker_id m, ?mk) \<or> (k, h) \<in> set (markerInstances s)"
        using set_update_cases [of k h "marker_id m" ?mk "markerInstances s"] by simp
      with True show ?thesis by auto
    next
      assume "latLng (lat (popup h)) (normalizeCoordinates (lon (popup h))) = Returned"
      then show ?thesis by simp
    qed
  qed
qed

lemma refile_markers [simp]:
  "markers (fold (\<lambda>mk st.
       st \<lparr> markerInstances := AList.update (optionsMarkerId mk) mk (markerInstances st),
            surface := surface st @ [AddLayer t (optionsMarkerId mk)] \<rparr>) hs s) = markers s"
  by (induction hs arbitrary: s) auto

lemma refile_surface:
  "surface (fold (\<lambda>mk st.
       st \<lparr> markerInstances := AList.update (optionsMarkerId mk) mk (markerInstances st),
            surface := surface st @ [AddLayer t (optionsMarkerId mk)] \<rparr>) hs s)
     = surface s @ map (\<lambda>mk. AddLayer t (optionsMarkerId mk)) hs"
  by (induction hs arbitrary: s) auto

lemma refile_mode [simp]:
  "currentClusterMode (fold (\<lambda>mk st.
       st \<lparr> markerInstances := AList.update (optionsMarkerId mk) mk (markerInstances st),
            surface := surface st @ [AddLayer t (optionsMarkerId mk)] \<rparr>) hs s)
     = currentClusterMode s"
  by (induction hs arbitrary: s) auto

lemma toggleClusterMode_markers [simp]: "markers (toggleClusterMode s enable) = markers s"
  by (simp add: toggleClusterMode_def Let_def clearAllMarkers_def)

lemma toggleClusterMode_surface: "\<exists>xs. surface (toggleClusterMode s enable) = surface s @ xs"
  by (simp add: toggleClusterMode_def Let_def clearAllMarkers_def refile_surface)

lemma toggleClusterMode_empty:
  "markerInstances s = [] \<Longrightarrow> markerInstances (toggleClusterMode s enable) = []"
  by (simp add: toggleClusterMode_def Let_def clearAllMarkers_def)

lemma createSpecificMarkers_markers [simp]:
  "markers (fst (createSpecificMarkers r s u l)) = markers s"
  by (simp add: createSpecificMarkers_def Let_def)

lemma createSpecificMarkers_noClear:
  "u = currentClusterMode s \<Longrightarrow> noClear s (fst (createSpecificMarkers r s u l))"
  by (simp add: createSpecificMarkers_def createLoop_noClear)

lemma createSpecificMarkers_surface:
  "\<exists>xs. surface (fst (createSpecificMarkers r s u l)) = surface s @ xs"
proof -
  let ?s1 = "if u \<noteq> currentClusterMode s then toggleClusterMode s u else s"
  from toggleClusterMode_surface [of s u] obtain xs where
    xs: "surface ?s1 = surface s @ xs" by (cases "u = currentClusterMode s") auto
  from createLoop_noClear [of ?s1 r u l] obtain ys where
    "surface (fst (createLoop r ?s1 u l)) = surface ?s1 @ ys"
    unfolding noClear_iff by blast
  with xs have "surface (fst (createSpecificMarkers r s u l)) = surface s @ (xs @ ys)"
    by (simp add: createSpecificMarkers_def Let_def)
  then show ?thesis by blast
qed

lemma createSpecificMarkers_mode:
  "currentClusterMode (fst (createSpecificMarkers r s u l)) = u"
proof -
  let ?s1 = "if u \<noteq> currentClusterMode s then toggleClusterMode s u else s"
  have "currentClusterMode ?s1 = u"
    by (auto simp: toggleClusterMode_def Let_def)
  moreover have "currentClusterMode (fst (createLoop r ?s1 u l)) = currentClusterMode ?s1"
    using createLoop_noClear [of ?s1 r u l] by (simp only: noClear_iff)
  ultimately show ?thesis by (simp add: createSpecificMarkers_def Let_def)
qed

lemma createSpecificMarkers_returned:
  "snd (createSpecificMarkers r s u l) = Returned \<Longrightarrow>
     \<forall>m \<in> set l. latLng (lat m) (normalizeCoordinates (lon m)) = Returned
               \<and> map_of (markerInstances (fst (createSpecificMarkers r s u l))) (marker_id m)
                   \<noteq> None"
  using createLoop_returned createLoop_returned_handles
  by (simp add: createSpecificMarkers_def Let_def)

lemma processMarkers_mode: "currentClusterMode (fst (processMarkers r s u (Some l))) = u"
  by (simp add: processMarkers_def createMarkers_def Let_def createSpecificMarkers_mode)

lemma processMarkers_markers:
  "markers (fst (processMarkers r s u (Some l))) = concat (map liveEntries l)"
  by (simp add: processMarkers_def createMarkers_def clearAllMarkers_def Let_def
        separateByCoords_fst)

lemma processMarkers_surface:
  "\<exists>xs. surface (fst (processMarkers r s u (Some l))) = surface s @ ClearLayers # xs"
proof -
  let ?s1 = "clearAllMarkers (s \<lparr> markers := fst (separateByCoords l ([], [])) \<rparr>)"
  from createSpecificMarkers_surface [of r ?s1 u "markers ?s1"] obtain xs where
    "surface (fst (createSpecificMarkers r ?s1 u (markers ?s1))) = surface ?s1 @ xs" by blast
  then have "surface (fst (processMarkers r s u (Some l))) = surface s @ ClearLayers # xs"
    by (simp add: processMarkers_def createMarkers_def Let_def) (simp add: clearAllMarkers_def)
  then show ?thesis by blast
qed

lemma processMarkers_clears:
  "ClearLayers \<in> set (newCalls s (fst (processMarkers r s u (Some l))))"
proof -
  from processMarkers_surface [of r s u l] obtain xs where
    "surface (fst (processMarkers r s u (Some l))) = surface s @ ClearLayers # xs" by blast
  then show ?thesis by (simp add: newCalls_def)
qed

lemma processMarkers_returned:
  assumes "snd (processMarkers r s u (Some l)) = Returned"
    and "m \<in> set (concat (map liveEntries l))"
  shows "latLng (lat m) (normalizeCoordinates (lon m)) = Returned
       \<and> map_of (markerInstances (fst (processMarkers r s u (Some l)))) (marker_id m) \<noteq> None"
proof -
  let ?s1 = "clearAllMarkers (s \<lparr> markers := fst (separateByCoords l ([], [])) \<rparr>)"
  have eq: "processMarkers r s u (Some l) = createSpecificMarkers r ?s1 u (markers ?s1)"
    by (simp add: processMarkers_def createMarkers_def Let_def)
  have ms: "markers ?s1 = concat (map liveEntries l)"
    by (simp add: clearAllMarkers_def separateByCoords_fst)
  from assms(1) eq have "snd (createSpecificMarkers r ?s1 u (markers ?s1)) = Returned" by simp
  from createSpecificMarkers_returned [OF this] have
    "\<forall>m \<in> set (markers ?s1). latLng (lat m) (normalizeCoordinates (lon m)) = Returned
       \<and> map_of (markerInstances (fst (processMarkers r s u (Some l)))) (marker_id m) \<noteq> None"
    by (simp only: eq)
  moreover from assms(2) have "m \<in> set (markers ?s1)" by (simp only: ms)
  ultimately show ?thesis by blast
qed

lemma processMarkers_built:
  assumes "(k, h) \<in> set (markerInstances (fst (processMarkers r s u (Some l))))"
  shows "latLng (lat (popup h)) (normalizeCoordinates (lon (popup h))) = Returned"
proof -
  let ?s1 = "clearAllMarkers (s \<lparr> markers := fst (separateByCoords l ([], [])) \<rparr>)"
  let ?s2 = "if u \<noteq> currentClusterMode ?s1 then toggleClusterMode ?s1 u else ?s1"
  have eq: "processMarkers r s u (Some l) = createLoop r ?s2 u (markers ?s1)"
    by (simp add: processMarkers_def createMarkers_def createSpecificMarkers_def Let_def)
  have "markerInstances ?s1 = []" by (simp add: clearAllMarkers_def)
  then have "markerInstances ?s2 = []" by (simp add: toggleClusterMode_empty)
  with createLoop_built [of k h r ?s2 u "markers ?s1"] assms eq show ?thesis by simp
qed

lemma liveEntries_beyond:
  assumes "lat m \<noteq> Null" and "lon m = Num x" and "x < - 140 \<or> 140 < x"
  shows "liveEntries m =
           [addProperties m,
            addProperties m
              \<lparr> marker_id := Some (id_text (assignId m) @ ''_dateline''),
                lon := Num (if x < 0 then 180 + (180 + x) else - 180 - (180 - x)) \<rparr>]"
  using assms
  by (auto simp add: liveEntries_def addProperties_def beyondDateLine_def js_less_def
        js_greater_def to_number_def duplicateMarkerAcrossDateLine_def js_sub_def js_add_def
        of_number_def Let_def)

lemma liveEntries_valid:
  "d \<in> set (liveEntries m) \<Longrightarrow> lat d \<noteq> Null \<and> lon d \<noteq> Null"
  by (auto simp: liveEntries_def Let_def duplicateMarkerAcrossDateLine_def js_add_def
        js_sub_def of_number_def split: if_splits option.splits)

lemma liveEntries_self:
  "lat n \<noteq> Null \<Longrightarrow> lon n \<noteq> Null \<Longrightarrow> addProperties n \<in> set (liveEntries n)"
  by (simp add: liveEntries_def addProperties_def duplicateMarkerAcrossDateLine_def Let_def)

lemma normalize_mirror:
  assumes "x < - 140 \<or> 140 < x" and "- 180 \<le> x" and "x \<le> 180"
  shows "normalizeCoordinates (Num (if x < 0 then 180 + (180 + x) else - 180 - (180 - x)))
           = Num (if x = 180 then - 180 else if x = - 180 then 180 else x)"
  using assms
  by (auto simp: normalizeCoordinates_def js_greater_def js_less_def to_number_def
        js_sub_def js_add_def of_number_def)

subsection \<open>Date-line duplication\<close>

text \<open>
  C6, as the code has it. A record with non-null coordinates whose longitude \<open>x\<close> lies
  beyond 140 degrees east or west contributes exactly two entries to the rebuilt list,
  wherever it stands in the incoming list: itself and, right after it, one duplicate
  whose id is the id of the record followed by \<^verbatim>\<open>_dateline\<close> and whose longitude is
  \<open>180 + (180 + x)\<close> for negative \<open>x\<close> and \<open>- 180 - (180 - x)\<close> otherwise. For \<open>x\<close> between
  \<open>- 180\<close> and \<open>180\<close>, normalising the longitude of the duplicate gives a value in that
  range; it gives back \<open>x\<close> when \<open>x\<close> is strictly inside the range. The list is written
  before the handles are created, so this holds whether or not their creation succeeds.
\<close>

theorem dateline_duplicate:
  assumes "lat m \<noteq> Null" and "lon m = Num x" and "x < - 140 \<or> 140 < x"
  shows "markers (fst (processMarkers r s u (Some (pre @ m # post)))) =
           markers (fst (processMarkers r s u (Some pre)))
           @ [addProperties m,
              addProperties m
                \<lparr> marker_id := Some (id_text (assignId m) @ ''_dateline''),
                  lon := Num (if x < 0 then 180 + (180 + x) else - 180 - (180 - x)) \<rparr>]
           @ markers (fst (processMarkers r s u (Some post)))
       \<and> (- 180 \<le> x \<and> x \<le> 180 \<longrightarrow>
            (\<exists>y. normalizeCoordinates
                    (Num (if x < 0 then 180 + (180 + x) else - 180 - (180 - x))) = Num y
                \<and> - 180 \<le> y \<and> y \<le> 180))
       \<and> (- 180 < x \<and> x < 180 \<longrightarrow>
            normalizeCoordinates
              (Num (if x < 0 then 180 + (180 + x) else - 180 - (180 - x))) = Num x)"
proof -
  have placed: "markers (fst (processMarkers r s u (Some (pre @ m # post)))) =
           markers (fst (processMarkers r s u (Some pre)))
           @ [addProperties m,
              addProperties m
                \<lparr> marker_id := Some (id_text (assignId m) @ ''_dateline''),
                  lon := Num (if x < 0 then 180 + (180 + x) else - 180 - (180 - x)) \<rparr>]
           @ markers (fst (processMarkers r s u (Some post)))"
    using liveEntries_beyond [OF assms] by (simp add: processMarkers_markers)
  have inside: "\<exists>y. normalizeCoordinates
                    (Num (if x < 0 then 180 + (180 + x) else - 180 - (180 - x))) = Num y
                \<and> - 180 \<le> y \<and> y \<le> 180"
    if "- 180 \<le> x" "x \<le> 180"
    using normalize_mirror [OF assms(3) that] that by auto
  have again: "normalizeCoordinates
              (Num (if x < 0 then 180 + (180 + x) else - 180 - (180 - x))) = Num x"
    if "- 180 < x" "x < 180"
    using normalize_mirror [OF assms(3)] that by auto
  from placed inside again show ?thesis by blast
qed

theorem dateline_duplicate_witness:
  "lat (site ''east'' 170 1) \<noteq> Null
   \<and> lon (site ''east'' 170 1) = Num 170
   \<and> map (\<lambda>d. (marker_id d, lon d, normalizeCoordinates (lon d)))
       (markers (fst (processMarkers plainRenderer emptyManager False
                        (Some [site ''east'' 170 1]))))
     = [(Some ''east'', Num 170, Num 170), (Some ''east_dateline'', Num (- 190), Num 170)]"
proof -
  have a: "lat (site ''east'' 170 1) \<noteq> Null" and b: "lon (site ''east'' 170 1) = Num 170"
    by (simp_all add: site_def)
  have c: "(170 :: rat) < - 140 \<or> 140 < (170 :: rat)" by simp
  from dateline_duplicate [OF a b c, of plainRenderer emptyManager False "[]" "[]"]
  show ?thesis
    using a b
    by (simp add: processMarkers_markers)
       (simp add: site_def addProperties_def assignId_def id_text_def
          normalizeCoordinates_def js_greater_def js_less_def to_number_def)
qed

text \<open>
  A marker on the antimeridian itself, at longitude \<open>180\<close>: its duplicate is stored at
  \<open>- 180\<close>, which normalisation leaves at \<open>- 180\<close>, not at the original \<open>180\<close>.
\<close>

theorem dateline_roundtrip_counterexample:
  "lat (site ''edge'' 180 1) \<noteq> Null
   \<and> beyondDateLine (site ''edge'' 180 1)
   \<and> map (\<lambda>d. (marker_id d, normalizeCoordinates (lon d)))
       (markers (fst (processMarkers plainRenderer emptyManager False
                        (Some [site ''edge'' 180 1]))))
     = [(Some ''edge'', Num 180), (Some ''edge_dateline'', Num (- 180))]
   \<and> Num (- 180) \<noteq> lon (site ''edge'' 180 1)"
  by (simp add: processMarkers_markers liveEntries_def site_def addProperties_def
        assignId_def beyondDateLine_def js_less_def js_greater_def to_number_def
        duplicateMarkerAcrossDateLine_def id_text_def js_sub_def js_add_def of_number_def
        normalizeCoordinates_def)

subsection \<open>Incremental refresh: what the loop does\<close>

lemma replaceFirst_ids:
  "marker_id x = k \<Longrightarrow> map marker_id (replaceFirst k x ms) = map marker_id ms"
  by (induction ms) auto

lemma replaceFirst_set: "set (replaceFirst k x ms) \<subseteq> insert x (set ms)"
  by (induction ms) auto

lemma updateMarker_ids [simp]:
  "map marker_id (markers (fst (updateMarker r s x))) = map marker_id (markers s)"
  by (simp add: updateMarker_def Let_def replaceFirst_ids split: option.splits completion.splits)

lemma updateMarker_has [simp]:
  "(map_of (markerInstances (fst (updateMarker r s x))) k = None)
     = (map_of (markerInstances s) k = None)"
  by (auto simp: updateMarker_def Let_def update_conv' split: option.splits completion.splits)

lemma updateMarker_set:
  "set (markers (fst (updateMarker r s x))) \<subseteq> insert x (set (markers s))"
  using replaceFirst_set [of "marker_id x" x "markers s"]
  by (auto simp: updateMarker_def Let_def split: option.splits completion.splits)

lemma updateMarker_noClear: "noClear s (fst (updateMarker r s x))"
  by (auto simp: updateMarker_def Let_def noClear_iff split: option.splits completion.splits)

lemma updateMarker_rejected:
  assumes "map_of (markerInstances s) (marker_id x) \<noteq> None"
    and "latLng (lat x) (normalizeCoordinates (lon x)) = Thrown e"
  shows "updateMarker r s x = (s, Thrown e)"
  using assms by (auto simp: updateMarker_def Let_def)

lemma duplicate_valid:
  "lat m \<noteq> Null \<Longrightarrow> lon m \<noteq> Null \<Longrightarrow> d \<in> set (duplicateMarkerAcrossDateLine m [m]) \<Longrightarrow>
     lat d \<noteq> Null \<and> lon d \<noteq> Null"
  by (auto simp: duplicateMarkerAcrossDateLine_def js_add_def js_sub_def of_number_def
        split: if_splits option.splits)

lemma stepAdds_valid: "d \<in> set (stepAdds cur m0) \<Longrightarrow> lat d \<noteq> Null \<and> lon d \<noteq> Null"
  using duplicate_valid [of "withId m0" d]
  by (auto simp: stepAdds_def validNew_def withId_def split: if_splits)

lemma updateMarker_facts:
  assumes "updateMarker r s x = (s', c)"
  shows "map marker_id (markers s') = map marker_id (markers s)"
    and "(map_of (markerInstances s') k = None) = (map_of (markerInstances s) k = None)"
    and "noClear s s'"
    and "set (markers s') \<subseteq> insert x (set (markers s))"
proof -
  from assms have s': "s' = fst (updateMarker r s x)" by simp
  show "map marker_id (markers s') = map marker_id (markers s)"
    unfolding s' by (rule updateMarker_ids)
  show "(map_of (markerInstances s') k = None) = (map_of (markerInstances s) k = None)"
    unfolding s' by (rule updateMarker_has)
  show "noClear s s'"
    unfolding s' by (rule updateMarker_noClear)
  show "set (markers s') \<subseteq> insert x (set (markers s))"
    unfolding s' by (rule updateMarker_set)
qed

lemma changedStep_cases:
  assumes "changedStep r cur m0 (s, a, rm) = ((s', a', rm'), c)"
  obtains (skipped) "\<not> validNew m0" "s' = s" "a' = a" "rm' = rm" "c = Returned"
  | (same) old where "validNew m0" "cur (assignId m0) = Some old"
      "\<not> hasMarkerChanged old (withId m0)"
      "s' = s" "a' = a" "rm' = removeAll (assignId m0) rm" "c = Returned"
  | (changed) old where "validNew m0" "cur (assignId m0) = Some old"
      "hasMarkerChanged old (withId m0)"
      "updateMarker r s (withId m0) = (s', c)" "a' = a" "rm' = removeAll (assignId m0) rm"
  | (staged) "validNew m0" "cur (assignId m0) = None"
      "s' = s" "a' = a @ stepAdds cur m0" "rm' = removeAll (assignId m0) rm" "c = Returned"
proof (cases "validNew m0")
  case False
  with assms have "s' = s" "a' = a" "rm' = rm" "c = Returned"
    by (auto simp: changedStep_def Let_def validNew_def)
  with False show ?thesis by (rule skipped)
next
  case True
  show ?thesis
  proof (cases "cur (assignId m0)")
    case None
    with True assms have "s' = s" "a' = a @ stepAdds cur m0"
      "rm' = removeAll (assignId m0) rm" "c = Returned"
      by (auto simp: changedStep_def Let_def validNew_def withId_def stepAdds_def
            duplicateMarkerAcrossDateLine_def)
    with True None show ?thesis by (rule staged)
  next
    case (Some old)
    show ?thesis
    proof (cases "hasMarkerChanged old (withId m0)")
      case False
      with True Some assms have "s' = s" "a' = a" "rm' = removeAll (assignId m0) rm"
        "c = Returned"
        by (auto simp: changedStep_def Let_def validNew_def withId_def)
      with True Some False show ?thesis by (rule same)
    next
      case changed': True
      with True Some assms have "updateMarker r s (withId m0) = (s', c)" "a' = a"
        "rm' = removeAll (assignId m0) rm"
        by (auto simp: changedStep_def Let_def validNew_def withId_def split: prod.splits)
      with True Some changed' show ?thesis by (rule changed)
    qed
  qed
qed

lemma changedStep_facts:
  assumes "changedStep r cur m0 (s, a, rm) = ((s', a', rm'), c)"
  shows "map marker_id (markers s') = map marker_id (markers s)"
    and "(map_of (markerInstances s') k = None) = (map_of (markerInstances s) k = None)"
    and "rm' = (if validNew m0 then removeAll (assignId m0) rm else rm)"
    and "a' = a @ stepAdds cur m0"
    and "noClear s s'"
    and "\<forall>d \<in> set (markers s'). d \<in> set (markers s) \<or> (lat d \<noteq> Null \<and> lon d \<noteq> Null)"
proof -
  show "map marker_id (markers s') = map marker_id (markers s)"
    using assms by (cases rule: changedStep_cases) (simp_all add: updateMarker_facts)
  show "(map_of (markerInstances s') k = None) = (map_of (markerInstances s) k = None)"
    using assms by (cases rule: changedStep_cases) (simp_all add: updateMarker_facts)
  show "rm' = (if validNew m0 then removeAll (assignId m0) rm else rm)"
    using assms by (cases rule: changedStep_cases) simp_all
  show "a' = a @ stepAdds cur m0"
    using assms by (cases rule: changedStep_cases) (simp_all add: stepAdds_def)
  show "noClear s s'"
    using assms by (cases rule: changedStep_cases) (simp_all add: updateMarker_facts)
  show "\<forall>d \<in> set (markers s'). d \<in> set (markers s) \<or> (lat d \<noteq> Null \<and> lon d \<noteq> Null)"
    using assms
  proof (cases rule: changedStep_cases)
    case (changed old)
    from updateMarker_facts(4) [OF changed(4)] changed(1) show ?thesis
      by (auto simp: validNew_def withId_def)
  qed simp_all
qed

lemma changedLoop_frame:
  assumes "changedLoop r cur ns (s, a, rm) = ((s', a', rm'), c)"
  shows "map marker_id (markers s') = map marker_id (markers s)
       \<and> (\<forall>k. (map_of (markerInstances s') k = None) = (map_of (markerInstances s) k = None))
       \<and> noClear s s'
       \<and> (\<forall>d \<in> set (markers s'). d \<in> set (markers s) \<or> (lat d \<noteq> Null \<and> lon d \<noteq> Null))
       \<and> (\<forall>d \<in> set a'. d \<in> set a \<or> (lat d \<noteq> Null \<and> lon d \<noteq> Null))
       \<and> (c = Returned \<longrightarrow>
            rm' = filter (\<lambda>k. k \<notin> assignId ` {n \<in> set ns. validNew n}) rm
          \<and> a' = a @ concat (map (stepAdds cur) ns))"
  using assms
proof (induction ns arbitrary: s a rm)
  case Nil
  then show ?case by simp
next
  case (Cons n ns)
  obtain s1 a1 r1 c1 where step: "changedStep r cur n (s, a, rm) = ((s1, a1, r1), c1)"
    by (metis surj_pair)
  note st = changedStep_facts [OF step]
  have a1: "\<forall>d \<in> set a1. d \<in> set a \<or> (lat d \<noteq> Null \<and> lon d \<noteq> Null)"
    using st(4) stepAdds_valid by auto
  show ?case
  proof (cases c1)
    case (Thrown e)
    with Cons.prems step have "s' = s1" "a' = a1" "rm' = r1" "c = Thrown e" by simp_all
    with st a1 show ?thesis by simp
  next
    case Returned
    with Cons.prems step have loop: "changedLoop r cur ns (s1, a1, r1) = ((s', a', rm'), c)"
      by simp
    note ih = Cons.IH [OF loop]
    have "map marker_id (markers s') = map marker_id (markers s)"
      using ih st(1) by simp
    moreover have "\<forall>k. (map_of (markerInstances s') k = None)
                       = (map_of (markerInstances s) k = None)"
      using ih st(2) by simp
    moreover have "noClear s s'"
      using ih st(5) by (blast intro: noClear_trans)
    moreover have "\<forall>d \<in> set (markers s'). d \<in> set (markers s) \<or> (lat d \<noteq> Null \<and> lon d \<noteq> Null)"
      using ih st(6) by blast
    moreover have "\<forall>d \<in> set a'. d \<in> set a \<or> (lat d \<noteq> Null \<and> lon d \<noteq> Null)"
      using ih a1 by blast
    moreover have "c = Returned \<longrightarrow>
         rm' = filter (\<lambda>k. k \<notin> assignId ` {x \<in> set (n # ns). validNew x}) rm"
      using ih st(3) by (auto simp: removeAll_filter_not_eq intro!: filter_cong)
    moreover have "c = Returned \<longrightarrow> a' = a @ concat (map (stepAdds cur) (n # ns))"
      using ih st(4) by simp
    ultimately show ?thesis by blast
  qed
qed

lemma removeMarker_facts:
  "set (markers (removeMarker s k)) \<subseteq> set (markers s)"
  "\<forall>m \<in> set (markers s). marker_id m \<noteq> k \<longrightarrow> m \<in> set (markers (removeMarker s k))"
  "noClear s (removeMarker s k)"
  "k' \<noteq> k \<Longrightarrow> map_of (markerInstances (removeMarker s k)) k' = map_of (markerInstances s) k'"
  by (auto simp: removeMarker_def noClear_iff delete_conv' split: option.splits)

lemma fold_removeMarker_facts:
  "(\<forall>m \<in> set (markers s). marker_id m \<notin> set ks \<longrightarrow>
       m \<in> set (markers (fold (\<lambda>idToRemove st. removeMarker st idToRemove) ks s)))
   \<and> set (markers (fold (\<lambda>idToRemove st. removeMarker st idToRemove) ks s)) \<subseteq> set (markers s)
   \<and> noClear s (fold (\<lambda>idToRemove st. removeMarker st idToRemove) ks s)"
proof (induction ks arbitrary: s)
  case Nil
  then show ?case by simp
next
  case (Cons k ks)
  let ?s1 = "removeMarker s k"
  note m = removeMarker_facts(1-3) [of s k]
  have "noClear s (fold (\<lambda>idToRemove st. removeMarker st idToRemove) (k # ks) s)"
    using Cons.IH [of ?s1] m(3) by (auto intro: noClear_trans)
  moreover have "\<forall>m \<in> set (markers s). marker_id m \<notin> set (k # ks) \<longrightarrow>
       m \<in> set (markers (fold (\<lambda>idToRemove st. removeMarker st idToRemove) (k # ks) s))"
    using Cons.IH [of ?s1] m(2) by auto
  moreover have "set (markers (fold (\<lambda>idToRemove st. removeMarker st idToRemove) (k # ks) s))
       \<subseteq> set (markers s)"
    using Cons.IH [of ?s1] m(1) by auto
  ultimately show ?case by blast
qed

lemma currentMap_None: "(currentMap ms k = None) = (k \<notin> marker_id ` set ms)"
  by (simp add: currentMap_def map_of_eq_None_iff image_image)

lemma set_currentKeys [simp]: "set (currentKeys ms) = marker_id ` set ms"
  by (simp add: currentKeys_def)

text \<open>
  The incremental refresh, taken apart: the state, the staged records and the ids left
  to remove when the loop has run.
\<close>

lemma updateChangedMarkers_thrown:
  assumes "changedLoop r (currentMap (markers s)) ns (s, [], currentKeys (markers s))
             = ((s1, a1, r1), Thrown e)"
  shows "updateChangedMarkers r s u ns = (s1, Thrown e)"
  using assms by (simp add: updateChangedMarkers_def)

lemma updateChangedMarkers_returned:
  assumes "changedLoop r (currentMap (markers s)) ns (s, [], currentKeys (markers s))
             = ((s1, a1, r1), Returned)"
  shows "updateChangedMarkers r s u ns =
           (if a1 = [] then (fold (\<lambda>idToRemove st. removeMarker st idToRemove) r1 s1, Returned)
            else createSpecificMarkers r
                   ((fold (\<lambda>idToRemove st. removeMarker st idToRemove) r1 s1)
                      \<lparr> markers := filter (\<lambda>m. marker_id m \<notin> set r1)
                                     (markers (fold (\<lambda>idToRemove st. removeMarker st idToRemove)
                                                r1 s1)) @ a1 \<rparr>)
                   u a1)"
  using assms by (simp add: updateChangedMarkers_def Let_def)

lemma updateChangedMarkers_noClear:
  assumes "u = currentClusterMode s"
  shows "noClear s (fst (updateChangedMarkers r s u ns))"
proof -
  obtain s1 a1 r1 c where
    loop: "changedLoop r (currentMap (markers s)) ns (s, [], currentKeys (markers s))
             = ((s1, a1, r1), c)"
    by (metis surj_pair)
  note f = changedLoop_frame [OF loop]
  then have n1: "noClear s s1" by blast
  show ?thesis
  proof (cases c)
    case (Thrown e)
    with loop n1 show ?thesis by (simp add: updateChangedMarkers_thrown)
  next
    case Returned
    define s2 where "s2 = fold (\<lambda>idToRemove st. removeMarker st idToRemove) r1 s1"
    have n2: "noClear s s2"
      using n1 fold_removeMarker_facts [of s1 r1] unfolding s2_def
      by (blast intro: noClear_trans)
    let ?s3 = "s2 \<lparr> markers := filter (\<lambda>m. marker_id m \<notin> set r1) (markers s2) @ a1 \<rparr>"
    have n3: "noClear s ?s3" using n2 by simp
    have "u = currentClusterMode ?s3" using n2 assms by (simp add: noClear_iff)
    then have "noClear ?s3 (fst (createSpecificMarkers r ?s3 u a1))"
      by (rule createSpecificMarkers_noClear)
    with n3 have "noClear s (fst (createSpecificMarkers r ?s3 u a1))"
      by (rule noClear_trans)
    with n2 loop Returned show ?thesis
      by (simp add: updateChangedMarkers_returned s2_def)
  qed
qed

lemma updateChangedMarkers_no_clear:
  "u = currentClusterMode s \<Longrightarrow>
     ClearLayers \<notin> set (newCalls s (fst (updateChangedMarkers r s u ns)))"
  using updateChangedMarkers_noClear [of u s r ns] by (simp add: noClear_def)

lemma changedLoop_staged:
  assumes "changedLoop r cur ns (s, a, rm) = ((s', a', rm'), Returned)"
    and "n \<in> set ns" and "validNew n"
  shows "assignId n \<notin> set rm'"
    and "cur (assignId n) = None \<Longrightarrow> withId n \<in> set a'"
proof -
  note f = changedLoop_frame [OF assms(1)]
  show "assignId n \<notin> set rm'"
    using f assms(2,3) by auto
  show "withId n \<in> set a'" if "cur (assignId n) = None"
  proof -
    from that assms(3) have "withId n \<in> set (stepAdds cur n)"
      by (simp add: stepAdds_def duplicateMarkerAcrossDateLine_def)
    with f assms(2) show ?thesis by auto
  qed
qed

lemma changedLoop_throws:
  assumes "n \<in> set ns" and "validNew n"
    and "cur (assignId n) = Some old" and "hasMarkerChanged old (withId n)"
    and "map_of (markerInstances s) (assignId n) \<noteq> None"
    and "latLng (lat n) (normalizeCoordinates (lon n)) = Thrown e"
  shows "snd (changedLoop r cur ns (s, a, rm)) \<noteq> Returned"
  using assms(1,5)
proof (induction ns arbitrary: s a rm)
  case Nil
  then show ?case by simp
next
  case (Cons m ns)
  obtain s1 a1 r1 c1 where step: "changedStep r cur m (s, a, rm) = ((s1, a1, r1), c1)"
    by (metis surj_pair)
  show ?case
  proof (cases c1)
    case (Thrown e')
    with step show ?thesis by simp
  next
    case Returned
    have other: "n \<noteq> m"
    proof
      assume "n = m"
      with step have "changedStep r cur n (s, a, rm) = ((s1, a1, r1), c1)" by simp
      then show False
      proof (cases rule: changedStep_cases)
        case (changed old')
        have "updateMarker r s (withId n) = (s, Thrown e)"
          using Cons.prems(2) assms(6) by (intro updateMarker_rejected) (simp_all add: withId_def)
        with changed(4) Returned show False by simp
      qed (use assms(2-4) in simp_all)
    qed
    with Cons.prems(1) have "n \<in> set ns" by simp
    moreover have "map_of (markerInstances s1) (assignId n) \<noteq> None"
      using changedStep_facts(2) [OF step] Cons.prems(2) by simp
    ultimately have "snd (changedLoop r cur ns (s1, a1, r1)) \<noteq> Returned"
      by (rule Cons.IH)
    with step Returned show ?thesis by simp
  qed
qed

lemma updateChangedMarkers_markers:
  "\<forall>d \<in> set (markers (fst (updateChangedMarkers r s u ns))).
      d \<in> set (markers s) \<or> (lat d \<noteq> Null \<and> lon d \<noteq> Null)"
proof -
  obtain s1 a1 r1 c where
    loop: "changedLoop r (currentMap (markers s)) ns (s, [], currentKeys (markers s))
             = ((s1, a1, r1), c)"
    by (metis surj_pair)
  note f = changedLoop_frame [OF loop]
  have m1: "\<forall>d \<in> set (markers s1). d \<in> set (markers s) \<or> (lat d \<noteq> Null \<and> lon d \<noteq> Null)"
    using f by blast
  have a1: "\<forall>d \<in> set a1. lat d \<noteq> Null \<and> lon d \<noteq> Null"
    using f by simp
  show ?thesis
  proof (cases c)
    case (Thrown e)
    with loop m1 show ?thesis by (simp add: updateChangedMarkers_thrown)
  next
    case Returned
    define s2 where "s2 = fold (\<lambda>idToRemove st. removeMarker st idToRemove) r1 s1"
    have m2: "set (markers s2) \<subseteq> set (markers s1)"
      using fold_removeMarker_facts [of s1 r1] by (simp add: s2_def)
    have res: "markers (fst (updateChangedMarkers r s u ns)) =
        (if a1 = [] then markers s2
         else filter (\<lambda>m. marker_id m \<notin> set r1) (markers s2) @ a1)"
      using loop Returned by (simp add: updateChangedMarkers_returned s2_def)
    show ?thesis
      unfolding res using m1 m2 a1 by (auto split: if_splits)
  qed
qed

lemma updateChangedMarkers_kept:
  assumes loop: "changedLoop r (currentMap (markers s)) ns (s, [], currentKeys (markers s))
                   = ((s1, a1, r1), Returned)"
    and n: "n \<in> set ns" "validNew n"
  shows "assignId n \<in> marker_id ` set (markers (fst (updateChangedMarkers r s u ns)))"
    and "assignId n \<notin> marker_id ` set (markers s) \<Longrightarrow>
           withId n \<in> set (markers (fst (updateChangedMarkers r s u ns)))
         \<and> withId n \<in> set a1
         \<and> updateChangedMarkers r s u ns =
             createSpecificMarkers r
               ((fold (\<lambda>idToRemove st. removeMarker st idToRemove) r1 s1)
                  \<lparr> markers := filter (\<lambda>m. marker_id m \<notin> set r1)
                                 (markers (fold (\<lambda>idToRemove st. removeMarker st idToRemove)
                                            r1 s1)) @ a1 \<rparr>)
               u a1"
proof -
  define cur where "cur = currentMap (markers s)"
  define s2 where "s2 = fold (\<lambda>idToRemove st. removeMarker st idToRemove) r1 s1"
  note f = changedLoop_frame [OF loop]
  note g = changedLoop_staged [OF loop n]
  have res: "markers (fst (updateChangedMarkers r s u ns)) =
      (if a1 = [] then markers s2
       else filter (\<lambda>m. marker_id m \<notin> set r1) (markers s2) @ a1)"
    using loop by (simp add: updateChangedMarkers_returned s2_def)
  have new: "withId n \<in> set a1" if "assignId n \<notin> marker_id ` set (markers s)"
    using that g(2) by (simp add: currentMap_None)
  show "assignId n \<notin> marker_id ` set (markers s) \<Longrightarrow>
           withId n \<in> set (markers (fst (updateChangedMarkers r s u ns)))
         \<and> withId n \<in> set a1
         \<and> updateChangedMarkers r s u ns =
             createSpecificMarkers r
               ((fold (\<lambda>idToRemove st. removeMarker st idToRemove) r1 s1)
                  \<lparr> markers := filter (\<lambda>m. marker_id m \<notin> set r1)
                                 (markers (fold (\<lambda>idToRemove st. removeMarker st idToRemove)
                                            r1 s1)) @ a1 \<rparr>)
               u a1"
  proof -
    assume "assignId n \<notin> marker_id ` set (markers s)"
    from new [OF this] have a: "withId n \<in> set a1" .
    then have ne: "a1 \<noteq> []" by auto
    from a ne have "withId n \<in> set (markers (fst (updateChangedMarkers r s u ns)))"
      unfolding res by simp
    moreover from ne loop have "updateChangedMarkers r s u ns =
             createSpecificMarkers r
               ((fold (\<lambda>idToRemove st. removeMarker st idToRemove) r1 s1)
                  \<lparr> markers := filter (\<lambda>m. marker_id m \<notin> set r1)
                                 (markers (fold (\<lambda>idToRemove st. removeMarker st idToRemove)
                                            r1 s1)) @ a1 \<rparr>)
               u a1"
      by (simp add: updateChangedMarkers_returned)
    ultimately show ?thesis using a by blast
  qed
  show "assignId n \<in> marker_id ` set (markers (fst (updateChangedMarkers r s u ns)))"
  proof (cases "assignId n \<in> marker_id ` set (markers s)")
    case False
    from new [OF False] have "withId n \<in> set (markers (fst (updateChangedMarkers r s u ns)))"
      unfolding res by auto
    then have "marker_id (withId n)
        \<in> marker_id ` set (markers (fst (updateChangedMarkers r s u ns)))"
      by (rule imageI)
    then show ?thesis by (simp add: withId_def)
  next
    case True
    then have "assignId n \<in> set (map marker_id (markers s1))" using f by simp
    then obtain m where m: "m \<in> set (markers s1)" "marker_id m = assignId n" by auto
    then have "m \<in> set (markers s2)"
      using fold_removeMarker_facts [of s1 r1] g(1) by (simp add: s2_def)
    then have "m \<in> set (markers (fst (updateChangedMarkers r s u ns)))"
      unfolding res using m(2) g(1) by (auto split: if_splits)
    then have "marker_id m \<in> marker_id ` set (markers (fst (updateChangedMarkers r s u ns)))"
      by (rule imageI)
    then show ?thesis by (simp add: m(2))
  qed
qed

lemma updateChangedMarkers_loop:
  "snd (updateChangedMarkers r s u ns) = Returned \<Longrightarrow>
     snd (changedLoop r (currentMap (markers s)) ns (s, [], currentKeys (markers s))) = Returned"
proof (rule ccontr)
  assume ret: "snd (updateChangedMarkers r s u ns) = Returned"
  assume "snd (changedLoop r (currentMap (markers s)) ns (s, [], currentKeys (markers s)))
            \<noteq> Returned"
  then obtain s1 a1 r1 e where
    "changedLoop r (currentMap (markers s)) ns (s, [], currentKeys (markers s))
       = ((s1, a1, r1), Thrown e)"
    by (metis not_Returned surj_pair snd_conv)
  then have "updateChangedMarkers r s u ns = (s1, Thrown e)"
    by (rule updateChangedMarkers_thrown)
  with ret show False by simp
qed

lemma updateChangedMarkers_new:
  assumes ret: "snd (updateChangedMarkers r s u ns) = Returned"
    and n: "n \<in> set ns" "validNew n" "assignId n \<notin> marker_id ` set (markers s)"
  shows "latLng (lat n) (normalizeCoordinates (lon n)) = Returned
       \<and> map_of (markerInstances (fst (updateChangedMarkers r s u ns))) (assignId n) \<noteq> None"
proof -
  from updateChangedMarkers_loop [OF ret] obtain s1 a1 r1 where
    loop: "changedLoop r (currentMap (markers s)) ns (s, [], currentKeys (markers s))
             = ((s1, a1, r1), Returned)"
    by (metis surj_pair snd_conv)
  let ?s3 = "(fold (\<lambda>idToRemove st. removeMarker st idToRemove) r1 s1)
                  \<lparr> markers := filter (\<lambda>m. marker_id m \<notin> set r1)
                                 (markers (fold (\<lambda>idToRemove st. removeMarker st idToRemove)
                                            r1 s1)) @ a1 \<rparr>"
  from updateChangedMarkers_kept(2) [OF loop n] have
    a: "withId n \<in> set a1"
    and eq: "updateChangedMarkers r s u ns = createSpecificMarkers r ?s3 u a1"
    by blast+
  from ret eq have "snd (createSpecificMarkers r ?s3 u a1) = Returned" by simp
  from createSpecificMarkers_returned [OF this] a eq
  have "latLng (lat (withId n)) (normalizeCoordinates (lon (withId n))) = Returned
      \<and> map_of (markerInstances (fst (updateChangedMarkers r s u ns))) (marker_id (withId n))
          \<noteq> None"
    by simp
  then show ?thesis by (simp add: withId_def)
qed

lemma twoStations_markers:
  "markers twoStations =
     [station 0 20 1 \<lparr> marker_id := Some ''marker_0'', iconNumber := Some 0, iconColor := Some 0 \<rparr>,
      station 1 30 2 \<lparr> marker_id := Some ''marker_1'', iconNumber := Some 1, iconColor := Some 0 \<rparr>]"
  by (simp add: twoStations_def processMarkers_markers liveEntries_def addProperties_def
        station_def assignId_def decimal.simps beyondDateLine_def js_less_def js_greater_def
        to_number_def)

subsection \<open>Which records are kept out of the live set\<close>

text \<open>
  C10, as the code has it. Both paths test the coordinates of an incoming record against
  \<^verbatim>\<open>null\<close> only, so a record whose \<^verbatim>\<open>lat\<close> or \<^verbatim>\<open>lon\<close> is absent passes the test like any
  other record that has no \<^verbatim>\<open>null\<close> coordinate. For such a record \<open>n\<close> of the incoming list:
  the full rebuild stores it in the marker list, which holds no entry with a \<^verbatim>\<open>null\<close>
  coordinate, and when the rebuild returns normally \<open>n\<close> has a rendering handle. Every
  entry that an incremental refresh puts into the marker list has non-null coordinates;
  when its loop completes the id of \<open>n\<close> is in the list, and \<open>n\<close> itself when the id is
  new; when the refresh returns normally a new \<open>n\<close> has a rendering handle. Passing the
  test is not enough for a record with an absent coordinate: the library rejects its
  position, so the rebuild ends with an exception and no handle is built from the record,
  and the refresh ends with an exception when the record is new, or when it differs from
  the live marker of its id and that marker has a handle.
\<close>

theorem null_check_and_absent_coordinates:
  assumes "n \<in> set ns" and "lat n \<noteq> Null" and "lon n \<noteq> Null"
  shows "addProperties n \<in> set (markers (fst (processMarkers r s u (Some ns))))
       \<and> (\<forall>d \<in> set (markers (fst (processMarkers r s u (Some ns)))).
             lat d \<noteq> Null \<and> lon d \<noteq> Null)
       \<and> (snd (processMarkers r s u (Some ns)) = Returned \<longrightarrow>
             map_of (markerInstances (fst (processMarkers r s u (Some ns)))) (assignId n)
               \<noteq> None)
       \<and> (\<forall>d \<in> set (markers (fst (updateChangedMarkers r s u ns))).
             d \<in> set (markers s) \<or> (lat d \<noteq> Null \<and> lon d \<noteq> Null))
       \<and> (snd (changedLoop r (currentMap (markers s)) ns (s, [], currentKeys (markers s)))
            = Returned \<longrightarrow>
             assignId n \<in> marker_id ` set (markers (fst (updateChangedMarkers r s u ns)))
           \<and> (assignId n \<notin> marker_id ` set (markers s) \<longrightarrow>
                n \<lparr> marker_id := assignId n \<rparr>
                  \<in> set (markers (fst (updateChangedMarkers r s u ns)))))
       \<and> (snd (updateChangedMarkers r s u ns) = Returned
            \<and> assignId n \<notin> marker_id ` set (markers s) \<longrightarrow>
             map_of (markerInstances (fst (updateChangedMarkers r s u ns))) (assignId n)
               \<noteq> None)
       \<and> (lat n = Undefined \<or> lon n = Undefined \<longrightarrow>
             snd (processMarkers r s u (Some ns)) \<noteq> Returned
           \<and> addProperties n
               \<notin> popup ` snd ` set (markerInstances (fst (processMarkers r s u (Some ns))))
           \<and> (assignId n \<notin> marker_id ` set (markers s)
                \<or> (\<exists>old. currentMap (markers s) (assignId n) = Some old
                        \<and> hasMarkerChanged old (n \<lparr> marker_id := assignId n \<rparr>))
                  \<and> map_of (markerInstances s) (assignId n) \<noteq> None
              \<longrightarrow> snd (updateChangedMarkers r s u ns) \<noteq> Returned))"
proof -
  have valid: "validNew n" using assms(2,3) by (simp add: validNew_def)
  have live: "addProperties n \<in> set (concat (map liveEntries ns))"
    using liveEntries_self [OF assms(2,3)] assms(1) by auto
  have r1: "addProperties n \<in> set (markers (fst (processMarkers r s u (Some ns))))"
    using live by (simp only: processMarkers_markers)
  have r2: "\<forall>d \<in> set (markers (fst (processMarkers r s u (Some ns)))).
             lat d \<noteq> Null \<and> lon d \<noteq> Null"
    using liveEntries_valid by (auto simp: processMarkers_markers)
  have r3: "map_of (markerInstances (fst (processMarkers r s u (Some ns)))) (assignId n) \<noteq> None"
    if "snd (processMarkers r s u (Some ns)) = Returned"
    using processMarkers_returned [OF that live] by (simp add: addProperties_def)
  have i1: "\<forall>d \<in> set (markers (fst (updateChangedMarkers r s u ns))).
             d \<in> set (markers s) \<or> (lat d \<noteq> Null \<and> lon d \<noteq> Null)"
    by (rule updateChangedMarkers_markers)
  have i2: "assignId n \<in> marker_id ` set (markers (fst (updateChangedMarkers r s u ns)))
           \<and> (assignId n \<notin> marker_id ` set (markers s) \<longrightarrow>
                n \<lparr> marker_id := assignId n \<rparr>
                  \<in> set (markers (fst (updateChangedMarkers r s u ns))))"
    if "snd (changedLoop r (currentMap (markers s)) ns (s, [], currentKeys (markers s)))
            = Returned"
  proof -
    from that obtain s1 a1 r1 where
      loop: "changedLoop r (currentMap (markers s)) ns (s, [], currentKeys (markers s))
               = ((s1, a1, r1), Returned)"
      by (metis surj_pair snd_conv)
    from updateChangedMarkers_kept [OF loop assms(1) valid, of u] show ?thesis
      by (simp add: withId_def)
  qed
  have i3: "map_of (markerInstances (fst (updateChangedMarkers r s u ns))) (assignId n) \<noteq> None"
    if "snd (updateChangedMarkers r s u ns) = Returned"
      and "assignId n \<notin> marker_id ` set (markers s)"
    using updateChangedMarkers_new [OF that(1) assms(1) valid that(2)] by simp
  have absent: "snd (processMarkers r s u (Some ns)) \<noteq> Returned
           \<and> addProperties n
               \<notin> popup ` snd ` set (markerInstances (fst (processMarkers r s u (Some ns))))
           \<and> (assignId n \<notin> marker_id ` set (markers s)
                \<or> (\<exists>old. currentMap (markers s) (assignId n) = Some old
                        \<and> hasMarkerChanged old (n \<lparr> marker_id := assignId n \<rparr>))
                  \<and> map_of (markerInstances s) (assignId n) \<noteq> None
              \<longrightarrow> snd (updateChangedMarkers r s u ns) \<noteq> Returned)"
    if und: "lat n = Undefined \<or> lon n = Undefined"
  proof -
    from absent_rejected [OF und] have
      rej: "latLng (lat n) (normalizeCoordinates (lon n)) = Thrown InvalidLatLng" .
    then have rej': "latLng (lat (addProperties n)) (normalizeCoordinates (lon (addProperties n)))
        \<noteq> Returned"
      by (simp add: addProperties_def)
    have a1: "snd (processMarkers r s u (Some ns)) \<noteq> Returned"
      using processMarkers_returned [OF _ live, of r s u] rej' by blast
    have a2: "addProperties n
               \<notin> popup ` snd ` set (markerInstances (fst (processMarkers r s u (Some ns))))"
    proof
      assume "addProperties n
               \<in> popup ` snd ` set (markerInstances (fst (processMarkers r s u (Some ns))))"
      then obtain k h where
        "(k, h) \<in> set (markerInstances (fst (processMarkers r s u (Some ns))))"
        "popup h = addProperties n"
        by force
      with processMarkers_built [of k h r s u ns] rej' show False by simp
    qed
    have a3: "snd (updateChangedMarkers r s u ns) \<noteq> Returned"
      if "assignId n \<notin> marker_id ` set (markers s)"
      using updateChangedMarkers_new [OF _ assms(1) valid that, of r u] rej by auto
    have a4: "snd (updateChangedMarkers r s u ns) \<noteq> Returned"
      if "\<exists>old. currentMap (markers s) (assignId n) = Some old
                        \<and> hasMarkerChanged old (n \<lparr> marker_id := assignId n \<rparr>)"
        and "map_of (markerInstances s) (assignId n) \<noteq> None"
    proof -
      from that(1) obtain old where
        old: "currentMap (markers s) (assignId n) = Some old" "hasMarkerChanged old (withId n)"
        by (auto simp: withId_def)
      have "snd (changedLoop r (currentMap (markers s)) ns (s, [], currentKeys (markers s)))
              \<noteq> Returned"
        using assms(1) valid old that(2) rej by (rule changedLoop_throws)
      with updateChangedMarkers_loop show ?thesis by blast
    qed
    from a1 a2 a3 a4 show ?thesis by blast
  qed
  from r1 r2 r3 i1 i2 i3 absent show ?thesis by blast
qed

theorem null_check_and_absent_coordinates_witness:
  "noLatitude \<in> set [noLatitude]
   \<and> lat noLatitude = Undefined
   \<and> lon noLatitude \<noteq> Null
   \<and> assignId noLatitude = Some ''marker_7''
   \<and> addProperties noLatitude
       \<in> set (markers (fst (processMarkers plainRenderer emptyManager False (Some [noLatitude]))))
   \<and> snd (processMarkers plainRenderer emptyManager False (Some [noLatitude])) \<noteq> Returned
   \<and> addProperties noLatitude
       \<notin> popup ` snd ` set (markerInstances
            (fst (processMarkers plainRenderer emptyManager False (Some [noLatitude]))))
   \<and> noLatitude \<lparr> marker_id := Some ''marker_7'' \<rparr>
       \<in> set (markers (fst (updateChangedMarkers plainRenderer emptyManager False [noLatitude])))
   \<and> snd (updateChangedMarkers plainRenderer emptyManager False [noLatitude]) \<noteq> Returned
   \<and> snd (updateChangedMarkers plainRenderer twoStations False [station 2 40 3]) = Returned
   \<and> map_of (markerInstances
         (fst (updateChangedMarkers plainRenderer twoStations False [station 2 40 3])))
        (Some ''marker_2'') \<noteq> None"
proof -
  have a: "noLatitude \<in> set [noLatitude]" by simp
  have b: "lat noLatitude \<noteq> Null" and c: "lon noLatitude \<noteq> Null"
    and u: "lat noLatitude = Undefined"
    by (simp_all add: noLatitude_def)
  have i: "assignId noLatitude = Some ''marker_7''"
    by (simp add: assignId_def noLatitude_def decimal.simps)
  have e: "assignId noLatitude \<notin> marker_id ` set (markers emptyManager)"
    by (simp add: emptyManager_def)
  have l: "snd (changedLoop plainRenderer (currentMap (markers emptyManager)) [noLatitude]
                  (emptyManager, [], currentKeys (markers emptyManager))) = Returned"
    by (simp add: emptyManager_def changedStep_def currentMap_def noLatitude_def Let_def)
  note t = null_check_and_absent_coordinates [OF a b c, of plainRenderer emptyManager False]
  have a2: "station 2 40 3 \<in> set [station 2 40 3]" by simp
  have b2: "lat (station 2 40 3) \<noteq> Null" and c2: "lon (station 2 40 3) \<noteq> Null"
    by (simp_all add: station_def)
  have i2: "assignId (station 2 40 3) = Some ''marker_2''"
    by (simp add: assignId_def station_def decimal.simps)
  have e2: "assignId (station 2 40 3) \<notin> marker_id ` set (markers twoStations)"
    by (simp add: i2 twoStations_markers)
  have ret: "snd (updateChangedMarkers plainRenderer twoStations False [station 2 40 3]) = Returned"
    by code_simp
  note t2 = null_check_and_absent_coordinates [OF a2 b2 c2, of plainRenderer twoStations False]
  from t u e l have
    "addProperties noLatitude
       \<in> set (markers (fst (processMarkers plainRenderer emptyManager False (Some [noLatitude]))))"
    "snd (processMarkers plainRenderer emptyManager False (Some [noLatitude])) \<noteq> Returned"
    "addProperties noLatitude
       \<notin> popup ` snd ` set (markerInstances
            (fst (processMarkers plainRenderer emptyManager False (Some [noLatitude]))))"
    "noLatitude \<lparr> marker_id := assignId noLatitude \<rparr>
       \<in> set (markers (fst (updateChangedMarkers plainRenderer emptyManager False [noLatitude])))"
    "snd (updateChangedMarkers plainRenderer emptyManager False [noLatitude]) \<noteq> Returned"
    by blast+
  moreover from t2 ret e2 have
    "map_of (markerInstances
         (fst (updateChangedMarkers plainRenderer twoStations False [station 2 40 3])))
        (assignId (station 2 40 3)) \<noteq> None"
    by blast
  ultimately show ?thesis using a u c i i2 ret by simp
qed

text \<open>
  The live set of two stations, refreshed with a list whose first record is the first
  station without its \<^verbatim>\<open>lat\<close> field, followed by the second station and by a third, new
  one. The first record passes the test on its coordinates, and the repositioning of its
  handle throws: the refresh ends there, the record is not stored, and the new station
  never reaches the live set. A rebuild from a list that holds only a record without
  \<^verbatim>\<open>lat\<close> stores the record and ends with the same exception, before any handle exists.
\<close>

theorem absent_latitude_not_added:
  "lat ((station 0 20 1) \<lparr> lat := Undefined \<rparr>) \<noteq> Null
   \<and> lon ((station 0 20 1) \<lparr> lat := Undefined \<rparr>) \<noteq> Null
   \<and> updateChangedMarkers plainRenderer twoStations False
        [(station 0 20 1) \<lparr> lat := Undefined \<rparr>, station 1 30 2, station 2 40 3]
       = (twoStations, Thrown InvalidLatLng)
   \<and> map (\<lambda>m. (marker_id m, lat m)) (markers twoStations)
       = [(Some ''marker_0'', Num 10), (Some ''marker_1'', Num 10)]
   \<and> map fst (markerInstances twoStations) = [Some ''marker_0'', Some ''marker_1'']
   \<and> processMarkers plainRenderer emptyManager False (Some [noLatitude])
       = (emptyManager \<lparr> markers := [addProperties noLatitude], surface := [ClearLayers] \<rparr>,
          Thrown InvalidLatLng)"
  by code_simp

subsection \<open>Diff minimality\<close>


subsection \<open>Full rebuild or incremental refresh\<close>

text \<open>
  C5. For a payload that carries a list, \<open>updateMarkersFromData\<close> rebuilds the whole set
  exactly when the number of live markers and the length of the list differ by more than
  ten, or the payload has \<^verbatim>\<open>map_url\<close> or \<^verbatim>\<open>refreshMode\<close> set; otherwise it takes the
  incremental path. A difference of exactly ten with no flag set is therefore an
  incremental refresh. On the rendering surface the two are told apart by the clearing
  of the layers: the rebuild always clears them, and the incremental path does not,
  unless the clustering of the display mode has changed since the markers were placed
  (then \<open>createSpecificMarkers\<close> moves them to the other rendering target first). This
  holds whether the chosen path returns normally or ends with an exception.
\<close>

theorem refresh_threshold:
  assumes "list_p d = Some l"
  shows "updateMarkersFromData r s u (Some d) =
           (if 10 < \<bar>int (length (markers s)) - int (length l)\<bar>
               \<or> truthy (map_url d) \<or> truthy (refreshMode d)
            then processMarkers r s u (Some l) else updateChangedMarkers r s u l)
       \<and> (u = currentClusterMode s \<longrightarrow>
            (ClearLayers \<in> set (newCalls s (fst (updateMarkersFromData r s u (Some d))))
              \<longleftrightarrow> 10 < \<bar>int (length (markers s)) - int (length l)\<bar>
                 \<or> truthy (map_url d) \<or> truthy (refreshMode d)))"
proof -
  have eq: "updateMarkersFromData r s u (Some d) =
           (if 10 < \<bar>int (length (markers s)) - int (length l)\<bar>
               \<or> truthy (map_url d) \<or> truthy (refreshMode d)
            then processMarkers r s u (Some l) else updateChangedMarkers r s u l)"
    using assms by (simp add: updateMarkersFromData_def shouldRefreshAllMarkers_def)
  have seen: "ClearLayers \<in> set (newCalls s (fst (updateMarkersFromData r s u (Some d))))
              \<longleftrightarrow> 10 < \<bar>int (length (markers s)) - int (length l)\<bar>
                 \<or> truthy (map_url d) \<or> truthy (refreshMode d)"
    if same: "u = currentClusterMode s"
  proof (cases "10 < \<bar>int (length (markers s)) - int (length l)\<bar>
                 \<or> truthy (map_url d) \<or> truthy (refreshMode d)")
    case True
    then have "updateMarkersFromData r s u (Some d) = processMarkers r s u (Some l)"
      by (simp only: eq if_True)
    with True processMarkers_clears [of s r u l] show ?thesis
      by simp
  next
    case False
    then have "updateMarkersFromData r s u (Some d) = updateChangedMarkers r s u l"
      by (simp only: eq if_False)
    with False updateChangedMarkers_no_clear [OF same, of r l] show ?thesis
      by simp
  qed
  from eq seen show ?thesis by blast
qed

theorem refresh_threshold_witness:
  "list_p \<lparr> list_p = Some (replicate 12 noLatitude), map_url = FAbsent, refreshMode = FAbsent \<rparr>
     = Some (replicate 12 noLatitude)
   \<and> \<bar>int (length (markers twoStations)) - int (length (replicate 12 noLatitude))\<bar> = 10
   \<and> updateMarkersFromData plainRenderer twoStations False
        (Some \<lparr> list_p = Some (replicate 12 noLatitude), map_url = FAbsent,
                refreshMode = FAbsent \<rparr>)
       = updateChangedMarkers plainRenderer twoStations False (replicate 12 noLatitude)
   \<and> ClearLayers \<notin> set (newCalls twoStations
        (fst (updateMarkersFromData plainRenderer twoStations False
                (Some \<lparr> list_p = Some (replicate 12 noLatitude), map_url = FAbsent,
                        refreshMode = FAbsent \<rparr>))))"
proof -
  let ?d = "\<lparr> list_p = Some (replicate 12 noLatitude), map_url = FAbsent,
              refreshMode = FAbsent \<rparr>"
  have l: "list_p ?d = Some (replicate 12 noLatitude)" by simp
  have n: "\<bar>int (length (markers twoStations)) - int (length (replicate 12 noLatitude))\<bar> = 10"
    by (simp add: twoStations_markers)
  have f: "\<not> truthy (map_url ?d)" "\<not> truthy (refreshMode ?d)" by (simp_all add: truthy_def)
  have cond: "\<not> (10 < \<bar>int (length (markers twoStations)) - int (length (replicate 12 noLatitude))\<bar>
               \<or> truthy (map_url ?d) \<or> truthy (refreshMode ?d))"
    using n f by linarith
  have m: "False = currentClusterMode twoStations"
    by (simp add: twoStations_def processMarkers_mode)
  note t = refresh_threshold [OF l, of plainRenderer twoStations False]
  have r1: "updateMarkersFromData plainRenderer twoStations False (Some ?d)
              = updateChangedMarkers plainRenderer twoStations False (replicate 12 noLatitude)"
    using conjunct1 [OF t] cond by (simp only: if_False)
  have r2: "ClearLayers \<notin> set (newCalls twoStations
              (fst (updateMarkersFromData plainRenderer twoStations False (Some ?d))))"
    using conjunct2 [OF t] cond m by blast
  from l n r1 r2 show ?thesis by blast
qed

section \<open>Event coordinator\<close>

subsection \<open>The stable sort of the queue\<close>

lemma insertBy_high:
  "isHigh x \<Longrightarrow> insertBy comparePriority x ys = x # ys"
  by (cases ys) (simp_all add: comparePriority_def isHigh_def)

lemma insertBy_low:
  "\<not> isHigh x \<Longrightarrow> \<forall>h \<in> set hs. isHigh h \<Longrightarrow> \<forall>l \<in> set ls. \<not> isHigh l \<Longrightarrow>
     insertBy comparePriority x (hs @ ls) = hs @ x # ls"
proof (induction hs)
  case Nil
  then show ?case by (cases ls) (simp_all add: comparePriority_def isHigh_def)
next
  case (Cons h hs)
  then show ?case by (simp add: comparePriority_def isHigh_def)
qed

lemma stableSort_tiers:
  "stableSort comparePriority q = filter isHigh q @ filter (\<lambda>e. \<not> isHigh e) q"
proof (induction q)
  case Nil
  show ?case by simp
next
  case (Cons x q)
  show ?case
  proof (cases "isHigh x")
    case True
    then show ?thesis by (simp add: Cons insertBy_high)
  next
    case False
    then show ?thesis by (simp add: Cons insertBy_low)
  qed
qed

lemma set_stableSort [simp]: "set (stableSort comparePriority q) = set q"
  by (auto simp: stableSort_tiers)


subsection \<open>What a chain of starts and completions preserves\<close>

lemma trio_frame:
  fixes c c2 c3 :: "'d coordinator"
  shows "state (startEvent c ty d p now) = state c
       \<and> errorInfo (startEvent c ty d p now) = errorInfo c
       \<and> componentInstance (startEvent c ty d p now) = componentInstance c
       \<and> lastUserEvent (startEvent c ty d p now) = lastUserEvent c
       \<and> stopRequests (startEvent c ty d p now) = stopRequests c"
    and "state (executeEvent c2 now2) = state c2
       \<and> errorInfo (executeEvent c2 now2) = errorInfo c2
       \<and> componentInstance (executeEvent c2 now2) = componentInstance c2
       \<and> lastUserEvent (executeEvent c2 now2) = lastUserEvent c2
       \<and> stopRequests (executeEvent c2 now2) = stopRequests c2"
    and "state (eventCompleted c3 now3) = state c3
       \<and> errorInfo (eventCompleted c3 now3) = errorInfo c3
       \<and> componentInstance (eventCompleted c3 now3) = componentInstance c3
       \<and> lastUserEvent (eventCompleted c3 now3) = lastUserEvent c3
       \<and> stopRequests (eventCompleted c3 now3) = stopRequests c3"
proof (induction c ty d p now and c2 now2 and c3 now3
       rule: startEvent_executeEvent_eventCompleted.induct)
  case (1 c eventType eventData prio now)
  then show ?case by (simp add: startEvent.simps)
next
  case (2 c now)
  then show ?case by (simp add: executeEvent.simps [of c now] Let_def)
next
  case (3 c now)
  then show ?case
    by (simp add: eventCompleted.simps [of c now] Let_def split: list.splits)
qed

lemma conserved_Nil [simp]: "conserved q r [] = (set q \<subseteq> set (eventQueue r))"
  by (auto simp: conserved_def)

lemma trio_trace:
  fixes c c2 c3 :: "'d coordinator"
  shows "\<exists>route xs. executed (startEvent c ty d p now) = executed c @ (route, Some ty, d) # xs
           \<and> conserved (eventQueue c) (startEvent c ty d p now) xs
           \<and> settled (startEvent c ty d p now)"
    and "\<exists>route xs. executed (executeEvent c2 now2)
               = executed c2 @ (route, etype (currentEvent c2), edata (currentEvent c2)) # xs
           \<and> conserved (eventQueue c2) (executeEvent c2 now2) xs
           \<and> settled (executeEvent c2 now2)"
    and "\<exists>xs. executed (eventCompleted c3 now3) = executed c3 @ xs
           \<and> conserved (eventQueue c3) (eventCompleted c3 now3) xs
           \<and> settled (eventCompleted c3 now3)"
proof (induction c ty d p now and c2 now2 and c3 now3
       rule: startEvent_executeEvent_eventCompleted.induct)
  case (1 c eventType eventData prio now)
  then show ?case by (simp add: startEvent.simps)
next
  case (2 c now)
  let ?e = "(etype (currentEvent c), edata (currentEvent c))"
  show ?case
  proof (cases "componentInstance c = None")
    case True
    let ?c' = "c \<lparr> executed := executed c @ [(NoComponent, ?e)] \<rparr>"
    have r: "executeEvent c now = eventCompleted ?c' now"
      using True by (simp add: executeEvent.simps [of c now] Let_def)
    from "2.IH"(1) [OF refl refl True] obtain xs where
      "executed (eventCompleted ?c' now) = executed ?c' @ xs"
      "conserved (eventQueue ?c') (eventCompleted ?c' now) xs"
      "settled (eventCompleted ?c' now)" by blast
    then have "executed (executeEvent c now) = executed c @ (NoComponent, ?e) # xs
         \<and> conserved (eventQueue c) (executeEvent c now) xs \<and> settled (executeEvent c now)"
      by (simp add: r)
    then show ?thesis by blast
  next
    case False
    show ?thesis
    proof (cases "etype (currentEvent c) \<in> Some ` set routedTypes")
      case True
      have r: "executeEvent c now = c \<lparr> executed := executed c @ [(Downstream, ?e)] \<rparr>"
        using True False by (auto simp: executeEvent.simps [of c now] Let_def)
      have "executed (executeEvent c now) = executed c @ (Downstream, ?e) # []
         \<and> conserved (eventQueue c) (executeEvent c now) [] \<and> settled (executeEvent c now)"
        using True by (simp add: r settled_def)
      then show ?thesis by blast
    next
      case unknown: False
      let ?c' = "c \<lparr> executed := executed c @ [(UnknownType, ?e)] \<rparr>"
      have r: "executeEvent c now = eventCompleted ?c' now"
        using False unknown by (auto simp: executeEvent.simps [of c now] Let_def)
      from "2.IH"(2) [OF refl refl False unknown] obtain xs where
        "executed (eventCompleted ?c' now) = executed ?c' @ xs"
        "conserved (eventQueue ?c') (eventCompleted ?c' now) xs"
        "settled (eventCompleted ?c' now)" by blast
      then have "executed (executeEvent c now) = executed c @ (UnknownType, ?e) # xs
           \<and> conserved (eventQueue c) (executeEvent c now) xs \<and> settled (executeEvent c now)"
        by (simp add: r)
      then show ?thesis by blast
    qed
  qed
next
  case (3 c now)
  let ?c1 = "c \<lparr> currentEvent := idleEvent \<rparr>"
  show ?case
  proof (cases "eventQueue c")
    case Nil
    then have r: "eventCompleted c now = ?c1"
      by (simp add: eventCompleted.simps [of c now] Let_def)
    have "executed (eventCompleted c now) = executed c @ []
        \<and> conserved (eventQueue c) (eventCompleted c now) [] \<and> settled (eventCompleted c now)"
      using Nil by (simp add: r settled_def)
    then show ?thesis by blast
  next
    case (Cons e0 q0)
    then have "eventQueue ?c1 \<noteq> []" by simp
    then have "stableSort comparePriority (eventQueue ?c1) \<noteq> []"
      by (metis length_stableSort length_0_conv)
    then obtain nextEvent rest where
      sorted: "stableSort comparePriority (eventQueue ?c1) = nextEvent # rest"
      by (cases "stableSort comparePriority (eventQueue ?c1)") auto
    have pos: "0 < length (eventQueue ?c1)" using Cons by simp
    let ?r = "startEvent (?c1 \<lparr> eventQueue := rest \<rparr>) (q_type nextEvent) (q_data nextEvent)
                ''normal'' now"
    have r: "eventCompleted c now = ?r"
      using sorted pos by (simp add: eventCompleted.simps [of c now] Let_def)
    from "3.IH" [OF refl pos sorted] obtain route xs where
      ih: "executed ?r = executed c @ (route, Some (q_type nextEvent), q_data nextEvent) # xs"
          "conserved rest ?r xs" "settled ?r" by auto
    have "set (eventQueue c) = insert nextEvent (set rest)"
      using sorted set_stableSort [of "eventQueue c"] by simp
    then have "conserved (eventQueue c) ?r
                 ((route, Some (q_type nextEvent), q_data nextEvent) # xs)"
      using ih(2) by (auto simp: conserved_def)
    then show ?thesis using ih(1,3) r by auto
  qed
qed

lemma startEvent_downstream:
  assumes "componentInstance c \<noteq> None" and "ty \<in> set routedTypes"
  shows "startEvent c ty d p now =
           c \<lparr> currentEvent :=
                  \<lparr> etype = Some ty, action = Some (determineAction ty), startTime = Some now,
                    isInterruptible = isEventInterruptible ty, priority = Some p,
                    progress = 0, edata = d \<rparr>,
                executed := executed c @ [(Downstream, Some ty, d)] \<rparr>"
  using assms by (auto simp: startEvent.simps executeEvent.simps Let_def)

lemma eventCompleted_next:
  fixes c :: "'d coordinator"
  assumes "eventQueue c \<noteq> []"
  shows "\<exists>nextEvent rest route xs.
           stableSort comparePriority (eventQueue c) = nextEvent # rest
         \<and> eventCompleted c now
             = startEvent (c \<lparr> currentEvent := idleEvent, eventQueue := rest \<rparr>)
                 (q_type nextEvent) (q_data nextEvent) ''normal'' now
         \<and> executed (eventCompleted c now)
             = executed c @ (route, Some (q_type nextEvent), q_data nextEvent) # xs"
proof -
  have "stableSort comparePriority (eventQueue c) \<noteq> []"
    using assms by (metis length_stableSort length_0_conv)
  then obtain nextEvent rest where
    sorted: "stableSort comparePriority (eventQueue c) = nextEvent # rest"
    by (cases "stableSort comparePriority (eventQueue c)") auto
  have r: "eventCompleted c now
             = startEvent (c \<lparr> currentEvent := idleEvent, eventQueue := rest \<rparr>)
                 (q_type nextEvent) (q_data nextEvent) ''normal'' now"
    using assms sorted by (simp add: eventCompleted.simps [of c now] Let_def)
  from trio_trace(1) [of "c \<lparr> currentEvent := idleEvent, eventQueue := rest \<rparr>"
        "q_type nextEvent" "q_data nextEvent" "''normal''" now]
  obtain route xs where
    "executed (eventCompleted c now)
       = executed c @ (route, Some (q_type nextEvent), q_data nextEvent) # xs"
    unfolding r by auto
  with sorted r show ?thesis by blast
qed

lemma exampleBusy_eval:
  "exampleBusy =
     \<lparr> state = ''initializing'',
       errorInfo = \<lparr> err_code = 0, err_message = [] \<rparr>,
       currentEvent = \<lparr> etype = Some ''data_update'', action = Some (Named ''updateMap''),
                        startTime = Some 100, isInterruptible = True, priority = Some ''normal'',
                        progress = 0, edata = Some 1 \<rparr>,
       eventQueue = [],
       lastUserEvent = \<lparr> u_type = None, u_timestamp = None, u_data = None \<rparr>,
       componentInstance = Some Component,
       executed = [(Downstream, Some ''data_update'', Some 1)],
       stopRequests = 0 \<rparr>"
  by (simp add: exampleBusy_def queueEvent_def registerEvents_def createCoordinator_def
        idleEvent_def truthyType_def startEvent.simps executeEvent.simps Let_def
        routedTypes_def determineAction_def eventActionMap_def isEventInterruptible_def
        moduleCurrentEventPriority_def nonInterruptibleEvents_def)

lemma exampleBusy_active: "truthyType (etype (currentEvent exampleBusy)) = Some ''data_update''"
  by (simp add: exampleBusy_eval truthyType_def)

lemma exampleBacklog_eval:
  "exampleBacklog =
     \<lparr> state = ''initializing'',
       errorInfo = \<lparr> err_code = 0, err_message = [] \<rparr>,
       currentEvent = \<lparr> etype = Some ''update_marker_mode'',
                        action = Some (Named ''updateMarkerMode''),
                        startTime = Some 103, isInterruptible = True,
                        priority = Some ''critical'', progress = 0, edata = Some 12 \<rparr>,
       eventQueue =
         [\<lparr> q_type = ''user_zoom_change'', q_data = Some 11, q_priority = ''normal'',
            q_timestamp = 103 \<rparr>,
          \<lparr> q_type = ''data_update'', q_data = Some 1, q_priority = ''high'',
            q_timestamp = 102 \<rparr>,
          \<lparr> q_type = ''update_tooltip_state'', q_data = Some 10, q_priority = ''normal'',
            q_timestamp = 101 \<rparr>],
       lastUserEvent = \<lparr> u_type = None, u_timestamp = None, u_data = None \<rparr>,
       componentInstance = Some Component,
       executed = [(Downstream, Some ''data_update'', Some 1),
                   (Downstream, Some ''user_zoom_change'', Some 11),
                   (Downstream, Some ''update_marker_mode'', Some 12)],
       stopRequests = 1 \<rparr>"
  by (simp add: exampleBacklog_def exampleBusy_eval queueEvent_def truthyType_def
        startEvent.simps executeEvent.simps Let_def routedTypes_def determineAction_def
        eventActionMap_def isEventInterruptible_def moduleCurrentEventPriority_def
        nonInterruptibleEvents_def interruptedEntry_def priorityOrNormal_def)

lemma exampleBacklog_sorted:
  "map q_type (stableSort comparePriority (eventQueue exampleBacklog))
     = [''data_update'', ''user_zoom_change'', ''update_tooltip_state'']"
  by (simp add: exampleBacklog_eval comparePriority_def)

subsection \<open>Critical preemption\<close>

lemma critical_branch:
  fixes c :: "'d coordinator"
  assumes active: "truthyType (etype (currentEvent c)) = Some t"
  shows "\<exists>route xs.
           executed (queueEvent c ty d ''critical'' now) = executed c @ (route, Some ty, d) # xs
         \<and> (interruptedEntry c t (priorityOrNormal (priority (currentEvent c))) now
               \<in> set (eventQueue (queueEvent c ty d ''critical'' now))
             \<or> (Some t, edata (currentEvent c)) \<in> snd ` set xs)
         \<and> (componentInstance c \<noteq> None \<and> ty \<in> set routedTypes \<longrightarrow>
               eventQueue (queueEvent c ty d ''critical'' now)
                 = interruptedEntry c t (priorityOrNormal (priority (currentEvent c))) now
                   # eventQueue c
             \<and> etype (currentEvent (queueEvent c ty d ''critical'' now)) = Some ty
             \<and> edata (currentEvent (queueEvent c ty d ''critical'' now)) = d
             \<and> priority (currentEvent (queueEvent c ty d ''critical'' now)) = Some ''critical''
             \<and> xs = [])"
proof -
  let ?A = "interruptedEntry c t (priorityOrNormal (priority (currentEvent c))) now"
  define c2 where "c2 = (if ty = ''update_marker_mode''
      then c \<lparr> eventQueue := ?A # eventQueue c, stopRequests := stopRequests c + 1 \<rparr>
      else c \<lparr> eventQueue := ?A # eventQueue c \<rparr>)"
  have r: "queueEvent c ty d ''critical'' now = startEvent c2 ty d ''critical'' now"
    using active by (simp add: queueEvent_def c2_def Let_def)
  have c2q: "eventQueue c2 = ?A # eventQueue c" and c2x: "executed c2 = executed c"
    and c2c: "componentInstance c2 = componentInstance c"
    by (simp_all add: c2_def)
  from trio_trace(1) [of c2 ty d "''critical''" now] obtain route xs where
    tr: "executed (startEvent c2 ty d ''critical'' now) = executed c2 @ (route, Some ty, d) # xs"
      "conserved (eventQueue c2) (startEvent c2 ty d ''critical'' now) xs" by blast
  have kept: "?A \<in> set (eventQueue (queueEvent c ty d ''critical'' now))
             \<or> (Some t, edata (currentEvent c)) \<in> snd ` set xs"
    using tr(2) by (simp add: conserved_def c2q r interruptedEntry_def)
  have post: "eventQueue (queueEvent c ty d ''critical'' now) = ?A # eventQueue c
             \<and> etype (currentEvent (queueEvent c ty d ''critical'' now)) = Some ty
             \<and> edata (currentEvent (queueEvent c ty d ''critical'' now)) = d
             \<and> priority (currentEvent (queueEvent c ty d ''critical'' now)) = Some ''critical''
             \<and> xs = []"
    if "componentInstance c \<noteq> None" "ty \<in> set routedTypes"
  proof -
    have s: "startEvent c2 ty d ''critical'' now =
           c2 \<lparr> currentEvent :=
                  \<lparr> etype = Some ty, action = Some (determineAction ty), startTime = Some now,
                    isInterruptible = isEventInterruptible ty, priority = Some ''critical'',
                    progress = 0, edata = d \<rparr>,
                executed := executed c2 @ [(Downstream, Some ty, d)] \<rparr>"
      using that by (intro startEvent_downstream) (simp_all add: c2c)
    have "xs = []" using tr(1) by (simp add: s)
    then show ?thesis by (simp add: r s c2q)
  qed
  from tr(1) kept post show ?thesis
    unfolding r c2x by blast
qed

lemma critical_handover:
  fixes c :: "'d coordinator"
  assumes active: "truthyType (etype (currentEvent c)) = Some t"
  shows "\<exists>c'. queueEvent c ty d ''critical'' now = executeEvent c' now
           \<and> eventQueue c'
               = interruptedEntry c t (priorityOrNormal (priority (currentEvent c))) now
                 # eventQueue c
           \<and> etype (currentEvent c') = Some ty
           \<and> edata (currentEvent c') = d
           \<and> priority (currentEvent c') = Some ''critical''"
proof -
  let ?A = "interruptedEntry c t (priorityOrNormal (priority (currentEvent c))) now"
  define c2 where "c2 = (if ty = ''update_marker_mode''
      then c \<lparr> eventQueue := ?A # eventQueue c, stopRequests := stopRequests c + 1 \<rparr>
      else c \<lparr> eventQueue := ?A # eventQueue c \<rparr>)"
  define c' where "c' = c2 \<lparr> currentEvent :=
              \<lparr> etype = Some ty, action = Some (determineAction ty), startTime = Some now,
                isInterruptible = isEventInterruptible ty, priority = Some ''critical'',
                progress = 0, edata = d \<rparr> \<rparr>"
  have "queueEvent c ty d ''critical'' now = startEvent c2 ty d ''critical'' now"
    using active by (simp add: queueEvent_def c2_def Let_def)
  then have "queueEvent c ty d ''critical'' now = executeEvent c' now"
    by (simp add: startEvent.simps c'_def)
  moreover have "eventQueue c' = ?A # eventQueue c"
    and "etype (currentEvent c') = Some ty"
    and "edata (currentEvent c') = d"
    and "priority (currentEvent c') = Some ''critical''"
    by (simp_all add: c'_def c2_def)
  ultimately show ?thesis by blast
qed

text \<open>
  C1. Let an event of type \<open>t\<close> be active. Queuing an event with priority
  \<^verbatim>\<open>'critical'\<close> puts an entry \<open>A\<close> for the active event at the front of the queue, with its
  type, its data and its priority (\<^verbatim>\<open>'normal'\<close> when the slot has none), makes the new
  event the active one with priority \<^verbatim>\<open>'critical'\<close>, and dispatches it from that state
  \<open>c'\<close>, without queuing it: the new event is the first that the call hands to the
  dispatcher. The entry is not lost: when the call returns, \<open>A\<close> is in the queue or the
  interrupted event has been handed to the dispatcher again. When a component is
  registered and the new type is one that the dispatcher routes to a downstream module,
  the call returns with the critical event in the active slot and the queue being \<open>A\<close>
  followed by the former queue.
\<close>

theorem critical_preemption:
  fixes c :: "'d coordinator"
  assumes active: "truthyType (etype (currentEvent c)) = Some t"
  shows "\<exists>A c' route xs.
           A = \<lparr> q_type = t, q_data = edata (currentEvent c),
                 q_priority = priorityOrNormal (priority (currentEvent c)),
                 q_timestamp = now \<rparr>
         \<and> (\<forall>p. priority (currentEvent c) = Some p \<and> p \<noteq> [] \<longrightarrow> q_priority A = p)
         \<and> queueEvent c ty d ''critical'' now = executeEvent c' now
         \<and> eventQueue c' = A # eventQueue c
         \<and> etype (currentEvent c') = Some ty
         \<and> edata (currentEvent c') = d
         \<and> priority (currentEvent c') = Some ''critical''
         \<and> executed (queueEvent c ty d ''critical'' now) = executed c @ (route, Some ty, d) # xs
         \<and> (A \<in> set (eventQueue (queueEvent c ty d ''critical'' now))
             \<or> (Some t, edata (currentEvent c)) \<in> snd ` set xs)
         \<and> (componentInstance c \<noteq> None \<and> ty \<in> set routedTypes \<longrightarrow>
               eventQueue (queueEvent c ty d ''critical'' now) = A # eventQueue c
             \<and> etype (currentEvent (queueEvent c ty d ''critical'' now)) = Some ty
             \<and> edata (currentEvent (queueEvent c ty d ''critical'' now)) = d
             \<and> priority (currentEvent (queueEvent c ty d ''critical'' now)) = Some ''critical''
             \<and> xs = [])"
proof -
  define A where "A = interruptedEntry c t (priorityOrNormal (priority (currentEvent c))) now"
  have shape: "A = \<lparr> q_type = t, q_data = edata (currentEvent c),
                 q_priority = priorityOrNormal (priority (currentEvent c)),
                 q_timestamp = now \<rparr>"
    by (simp add: A_def interruptedEntry_def)
  have prio: "\<forall>p. priority (currentEvent c) = Some p \<and> p \<noteq> [] \<longrightarrow> q_priority A = p"
    by (simp add: shape priorityOrNormal_def)
  from critical_handover [OF active, of ty d now] obtain c' where
    hand: "queueEvent c ty d ''critical'' now = executeEvent c' now"
      "eventQueue c' = A # eventQueue c"
      "etype (currentEvent c') = Some ty"
      "edata (currentEvent c') = d"
      "priority (currentEvent c') = Some ''critical''"
    unfolding A_def by blast
  from critical_branch [OF active, of ty d now] obtain route xs where
    br: "executed (queueEvent c ty d ''critical'' now) = executed c @ (route, Some ty, d) # xs"
      "A \<in> set (eventQueue (queueEvent c ty d ''critical'' now))
             \<or> (Some t, edata (currentEvent c)) \<in> snd ` set xs"
      "componentInstance c \<noteq> None \<and> ty \<in> set routedTypes \<longrightarrow>
               eventQueue (queueEvent c ty d ''critical'' now) = A # eventQueue c
             \<and> etype (currentEvent (queueEvent c ty d ''critical'' now)) = Some ty
             \<and> edata (currentEvent (queueEvent c ty d ''critical'' now)) = d
             \<and> priority (currentEvent (queueEvent c ty d ''critical'' now)) = Some ''critical''
             \<and> xs = []"
    unfolding A_def by blast
  from shape prio hand br show ?thesis by blast
qed

theorem critical_preemption_witness:
  "truthyType (etype (currentEvent exampleBusy)) = Some ''data_update''
   \<and> eventQueue (queueEvent exampleBusy ''update_marker_mode'' (Some 2) ''critical'' 200)
       = [\<lparr> q_type = ''data_update'', q_data = Some 1, q_priority = ''normal'', q_timestamp = 200 \<rparr>]
   \<and> etype (currentEvent (queueEvent exampleBusy ''update_marker_mode'' (Some 2) ''critical'' 200))
       = Some ''update_marker_mode''
   \<and> priority (currentEvent (queueEvent exampleBusy ''update_marker_mode'' (Some 2) ''critical'' 200))
       = Some ''critical''"
proof -
  have comp: "componentInstance exampleBusy \<noteq> None \<and> ''update_marker_mode'' \<in> set routedTypes"
    by (simp add: exampleBusy_eval routedTypes_def)
  have entry: "interruptedEntry exampleBusy ''data_update''
                 (priorityOrNormal (priority (currentEvent exampleBusy))) 200
      = \<lparr> q_type = ''data_update'', q_data = Some 1, q_priority = ''normal'', q_timestamp = 200 \<rparr>"
    by (simp add: exampleBusy_eval interruptedEntry_def priorityOrNormal_def)
  have q: "eventQueue exampleBusy = []" by (simp add: exampleBusy_eval)
  from critical_preemption [OF exampleBusy_active, of 200 "''update_marker_mode''" "Some 2"]
  obtain A where
    A: "A = \<lparr> q_type = ''data_update'', q_data = edata (currentEvent exampleBusy),
               q_priority = priorityOrNormal (priority (currentEvent exampleBusy)),
               q_timestamp = 200 \<rparr>"
    and post: "componentInstance exampleBusy \<noteq> None \<and> ''update_marker_mode'' \<in> set routedTypes \<longrightarrow>
               eventQueue (queueEvent exampleBusy ''update_marker_mode'' (Some 2) ''critical'' 200)
                 = A # eventQueue exampleBusy
             \<and> etype (currentEvent (queueEvent exampleBusy ''update_marker_mode'' (Some 2) ''critical'' 200))
                 = Some ''update_marker_mode''
             \<and> priority (currentEvent (queueEvent exampleBusy ''update_marker_mode'' (Some 2) ''critical'' 200))
                 = Some ''critical''"
    by blast
  have "A = \<lparr> q_type = ''data_update'', q_data = Some 1, q_priority = ''normal'',
               q_timestamp = 200 \<rparr>"
    using A entry by (simp add: interruptedEntry_def)
  with post comp q exampleBusy_active show ?thesis by simp
qed

subsection \<open>Which submissions preempt\<close>

text \<open>
  C3, as the code has it. With an event active, a submission preempts it (the new event
  is the first handed to the dispatcher, and the entry for the interrupted event is
  queued or has been dispatched again) exactly when its priority is \<^verbatim>\<open>'critical'\<close>, or
  the active event is interruptible and the submission has priority \<^verbatim>\<open>'high'\<close> or a type
  that starts with \<^verbatim>\<open>user_\<close>. Every other submission leaves the active slot as it is,
  dispatches nothing and is appended to the queue.
\<close>

theorem preemption_rule:
  fixes c :: "'d coordinator"
  assumes active: "truthyType (etype (currentEvent c)) = Some t"
  shows "if prio = ''critical''
            \<or> (prio = ''high'' \<or> take 5 ty = ''user_'') \<and> isInterruptible (currentEvent c)
         then \<exists>route xs.
                executed (queueEvent c ty d prio now) = executed c @ (route, Some ty, d) # xs
              \<and> (interruptedEntry c t
                    (if prio = ''critical'' then priorityOrNormal (priority (currentEvent c))
                     else ''high'') now
                    \<in> set (eventQueue (queueEvent c ty d prio now))
                  \<or> (Some t, edata (currentEvent c)) \<in> snd ` set xs)
         else executed (queueEvent c ty d prio now) = executed c
              \<and> currentEvent (queueEvent c ty d prio now) = currentEvent c
              \<and> eventQueue (queueEvent c ty d prio now)
                   = eventQueue c @ [\<lparr> q_type = ty, q_data = d, q_priority = prio,
                                       q_timestamp = now \<rparr>]"
proof (cases "prio = ''critical''")
  case True
  from critical_branch [OF active, of ty d now] True show ?thesis by auto
next
  case nc: False
  show ?thesis
  proof (cases "(prio = ''high'' \<or> take 5 ty = ''user_'') \<and> isInterruptible (currentEvent c)")
    case True
    let ?A = "interruptedEntry c t ''high'' now"
    let ?c' = "c \<lparr> eventQueue := ?A # eventQueue c \<rparr>"
    have r: "queueEvent c ty d prio now = startEvent ?c' ty d ''normal'' now"
      using active nc True by (simp add: queueEvent_def)
    from trio_trace(1) [of ?c' ty d "''normal''" now] obtain route xs where
      tr: "executed (startEvent ?c' ty d ''normal'' now) = executed ?c' @ (route, Some ty, d) # xs"
        "conserved (eventQueue ?c') (startEvent ?c' ty d ''normal'' now) xs" by blast
    have "?A \<in> set (eventQueue (queueEvent c ty d prio now))
             \<or> (Some t, edata (currentEvent c)) \<in> snd ` set xs"
      using tr(2) by (simp add: conserved_def r interruptedEntry_def)
    with tr(1) have "\<exists>route xs.
                executed (queueEvent c ty d prio now) = executed c @ (route, Some ty, d) # xs
              \<and> (?A \<in> set (eventQueue (queueEvent c ty d prio now))
                  \<or> (Some t, edata (currentEvent c)) \<in> snd ` set xs)"
      unfolding r by auto
    then show ?thesis using nc True by simp
  next
    case False
    then show ?thesis
      using active nc by (auto simp: queueEvent_def Let_def)
  qed
qed

theorem preemption_rule_witness:
  "truthyType (etype (currentEvent exampleBusy)) = Some ''data_update''
   \<and> isInterruptible (currentEvent exampleBusy)
   \<and> currentEvent (queueEvent exampleBusy ''marker_click'' (Some 4) ''normal'' 200)
       = currentEvent exampleBusy
   \<and> eventQueue (queueEvent exampleBusy ''marker_click'' (Some 4) ''normal'' 200)
       = [\<lparr> q_type = ''marker_click'', q_data = Some 4, q_priority = ''normal'',
            q_timestamp = 200 \<rparr>]
   \<and> (\<exists>route xs. executed (queueEvent exampleBusy ''process_markers'' (Some 5) ''high'' 200)
          = executed exampleBusy @ (route, Some ''process_markers'', Some 5) # xs)"
proof -
  have q: "eventQueue exampleBusy = []" and i: "isInterruptible (currentEvent exampleBusy)"
    by (simp_all add: exampleBusy_eval)
  have stays: "currentEvent (queueEvent exampleBusy ''marker_click'' (Some 4) ''normal'' 200)
       = currentEvent exampleBusy
   \<and> eventQueue (queueEvent exampleBusy ''marker_click'' (Some 4) ''normal'' 200)
       = [\<lparr> q_type = ''marker_click'', q_data = Some 4, q_priority = ''normal'',
            q_timestamp = 200 \<rparr>]"
    using preemption_rule [OF exampleBusy_active, of "''normal''" "''marker_click''" "Some 4" 200]
    by (simp add: q)
  have "\<exists>route xs. executed (queueEvent exampleBusy ''process_markers'' (Some 5) ''high'' 200)
          = executed exampleBusy @ (route, Some ''process_markers'', Some 5) # xs"
    using preemption_rule [OF exampleBusy_active, of "''high''" "''process_markers''" "Some 5" 200] i
    by auto
  with stays i exampleBusy_active show ?thesis by blast
qed

text \<open>
  A submission of priority \<^verbatim>\<open>'normal'\<close> and type \<^verbatim>\<open>user_center_change\<close>, made while an
  interruptible \<^verbatim>\<open>data_update\<close> is active: it takes the active slot, and the queue holds
  the interrupted event, not the submission.
\<close>

theorem normal_user_event_preempts:
  "etype (currentEvent exampleBusy) = Some ''data_update''
   \<and> etype (currentEvent (queueEvent exampleBusy ''user_center_change'' (Some 3) ''normal'' 200))
       = Some ''user_center_change''
   \<and> eventQueue (queueEvent exampleBusy ''user_center_change'' (Some 3) ''normal'' 200)
       = [\<lparr> q_type = ''data_update'', q_data = Some 1, q_priority = ''high'', q_timestamp = 200 \<rparr>]"
  by (simp add: exampleBusy_eval queueEvent_def truthyType_def startEvent.simps
        executeEvent.simps Let_def routedTypes_def interruptedEntry_def)

subsection \<open>Completion\<close>

text \<open>
  C7. When the queue is not empty, completing the active event sorts the queue into the
  entries of priority \<^verbatim>\<open>'high'\<close>, in their order, followed by all other entries, in their
  order; in particular the entries of priority \<^verbatim>\<open>'normal'\<close> keep their relative order. It
  then takes the first entry off the sorted queue and starts it from an idle slot, so
  that this entry is the next event handed to the dispatcher.
\<close>

theorem completion_order:
  fixes c :: "'d coordinator"
  assumes "eventQueue c \<noteq> []"
  shows "\<exists>nextEvent rest route xs.
           stableSort comparePriority (eventQueue c) = nextEvent # rest
         \<and> nextEvent # rest = filter (\<lambda>e. q_priority e = ''high'') (eventQueue c)
                               @ filter (\<lambda>e. q_priority e \<noteq> ''high'') (eventQueue c)
         \<and> filter (\<lambda>e. q_priority e = ''normal'') (nextEvent # rest)
             = filter (\<lambda>e. q_priority e = ''normal'') (eventQueue c)
         \<and> eventCompleted c now
             = startEvent (c \<lparr> currentEvent := idleEvent, eventQueue := rest \<rparr>)
                 (q_type nextEvent) (q_data nextEvent) ''normal'' now
         \<and> executed (eventCompleted c now)
             = executed c @ (route, Some (q_type nextEvent), q_data nextEvent) # xs"
proof -
  have tiers: "stableSort comparePriority (eventQueue c)
      = filter (\<lambda>e. q_priority e = ''high'') (eventQueue c)
        @ filter (\<lambda>e. q_priority e \<noteq> ''high'') (eventQueue c)"
    using stableSort_tiers [of "eventQueue c"] by (simp add: isHigh_def [abs_def])
  have normal: "filter (\<lambda>e. q_priority e = ''normal'') (stableSort comparePriority (eventQueue c))
             = filter (\<lambda>e. q_priority e = ''normal'') (eventQueue c)"
  proof -
    have "filter (\<lambda>e. q_priority e = ''normal'')
            (filter (\<lambda>e. q_priority e = ''high'') (eventQueue c)) = []"
      by (simp add: filter_empty_conv)
    moreover have "filter (\<lambda>e. q_priority e = ''normal'')
            (filter (\<lambda>e. q_priority e \<noteq> ''high'') (eventQueue c))
          = filter (\<lambda>e. q_priority e = ''normal'') (eventQueue c)"
      by (auto intro: filter_cong)
    ultimately show ?thesis
      unfolding tiers by simp
  qed
  from eventCompleted_next [OF assms, of now] obtain nextEvent rest route xs where
    n: "stableSort comparePriority (eventQueue c) = nextEvent # rest"
       "eventCompleted c now
             = startEvent (c \<lparr> currentEvent := idleEvent, eventQueue := rest \<rparr>)
                 (q_type nextEvent) (q_data nextEvent) ''normal'' now"
       "executed (eventCompleted c now)
             = executed c @ (route, Some (q_type nextEvent), q_data nextEvent) # xs"
    by blast
  from n(1) tiers normal have
    "nextEvent # rest = filter (\<lambda>e. q_priority e = ''high'') (eventQueue c)
                               @ filter (\<lambda>e. q_priority e \<noteq> ''high'') (eventQueue c)"
    "filter (\<lambda>e. q_priority e = ''normal'') (nextEvent # rest)
             = filter (\<lambda>e. q_priority e = ''normal'') (eventQueue c)"
    by simp_all
  with n show ?thesis by blast
qed

theorem completion_order_witness:
  "eventQueue exampleBacklog \<noteq> []
   \<and> map q_priority (eventQueue exampleBacklog) = [''normal'', ''high'', ''normal'']
   \<and> map q_type (eventQueue exampleBacklog)
       = [''user_zoom_change'', ''data_update'', ''update_tooltip_state'']
   \<and> map q_type (stableSort comparePriority (eventQueue exampleBacklog))
       = [''data_update'', ''user_zoom_change'', ''update_tooltip_state'']
   \<and> etype (currentEvent (eventCompleted exampleBacklog 300)) = Some ''data_update''
   \<and> map q_type (eventQueue (eventCompleted exampleBacklog 300))
       = [''user_zoom_change'', ''update_tooltip_state'']"
proof -
  have ne: "eventQueue exampleBacklog \<noteq> []"
    by (simp add: exampleBacklog_eval)
  have comp: "componentInstance exampleBacklog \<noteq> None" by (simp add: exampleBacklog_eval)
  from completion_order [OF ne, of 300] obtain nextEvent rest where
    n: "stableSort comparePriority (eventQueue exampleBacklog) = nextEvent # rest"
       "eventCompleted exampleBacklog 300
          = startEvent (exampleBacklog \<lparr> currentEvent := idleEvent, eventQueue := rest \<rparr>)
              (q_type nextEvent) (q_data nextEvent) ''normal'' 300"
    by blast
  from n(1) exampleBacklog_sorted have
    nr: "q_type nextEvent = ''data_update''"
        "map q_type rest = [''user_zoom_change'', ''update_tooltip_state'']"
    by simp_all
  have routed: "q_type nextEvent \<in> set routedTypes" by (simp add: nr routedTypes_def)
  have "etype (currentEvent (eventCompleted exampleBacklog 300)) = Some ''data_update''
      \<and> map q_type (eventQueue (eventCompleted exampleBacklog 300))
          = [''user_zoom_change'', ''update_tooltip_state'']"
    unfolding n(2) using comp routed nr
    by (simp add: startEvent_downstream)
  moreover have "map q_priority (eventQueue exampleBacklog) = [''normal'', ''high'', ''normal'']"
    "map q_type (eventQueue exampleBacklog)
       = [''user_zoom_change'', ''data_update'', ''update_tooltip_state'']"
    by (simp_all add: exampleBacklog_eval)
  ultimately show ?thesis using ne exampleBacklog_sorted by blast
qed

subsection \<open>Failure of a downstream operation\<close>

text \<open>
  C8. When the promise of the downstream operation is rejected, the coordinator records
  the code \<open>500\<close> and a message naming the active event and the error, sets its state to
  \<^verbatim>\<open>'error'\<close>, and completes the event. No queued event is lost by this: each is still
  queued or has been handed to the dispatcher; when the queue was not empty at least one
  event was handed to the dispatcher; and the coordinator ends settled, that is idle with
  an empty queue or with its active event handed to a downstream module.
\<close>

theorem dispatch_failure_continues:
  fixes c :: "'d coordinator"
  shows "errorInfo (downstreamSettled c (Rejected msg) now)
           = \<lparr> err_code = 500,
               err_message = ''Error in event '' @ typeText (etype (currentEvent c))
                             @ '': '' @ msg \<rparr>
       \<and> state (downstreamSettled c (Rejected msg) now) = ''error''
       \<and> (\<exists>xs. executed (downstreamSettled c (Rejected msg) now) = executed c @ xs
              \<and> conserved (eventQueue c) (downstreamSettled c (Rejected msg) now) xs
              \<and> (eventQueue c \<noteq> [] \<longrightarrow> xs \<noteq> []))
       \<and> settled (downstreamSettled c (Rejected msg) now)"
proof -
  define info where "info = \<lparr> err_code = 500,
               err_message = ''Error in event '' @ typeText (etype (currentEvent c))
                             @ '': '' @ msg \<rparr>"
  define c' where "c' = c \<lparr> errorInfo := info, state := ''error'' \<rparr>"
  have r: "downstreamSettled c (Rejected msg) now = eventCompleted c' now"
    by (simp add: downstreamSettled_def handleEventError_def c'_def info_def)
  have frame: "errorInfo (eventCompleted c' now) = info" "state (eventCompleted c' now) = ''error''"
    using trio_frame(3) [of c' now] by (simp_all add: c'_def)
  have same: "eventQueue c' = eventQueue c" "executed c' = executed c"
    by (simp_all add: c'_def)
  from trio_trace(3) [of c' now] obtain xs where
    tr: "executed (eventCompleted c' now) = executed c' @ xs"
      "conserved (eventQueue c') (eventCompleted c' now) xs"
      "settled (eventCompleted c' now)" by blast
  have "xs \<noteq> []" if "eventQueue c \<noteq> []"
  proof -
    from that have q: "eventQueue c' \<noteq> []" by (simp add: same)
    from eventCompleted_next [OF q, of now] obtain route ys nextEvent rest where
      "stableSort comparePriority (eventQueue c') = nextEvent # rest"
      "executed (eventCompleted c' now)
         = executed c' @ (route, Some (q_type nextEvent), q_data nextEvent) # ys"
      by blast
    with tr(1) show ?thesis by auto
  qed
  with tr have "\<exists>xs. executed (eventCompleted c' now) = executed c @ xs
              \<and> conserved (eventQueue c) (eventCompleted c' now) xs
              \<and> (eventQueue c \<noteq> [] \<longrightarrow> xs \<noteq> [])"
    unfolding same by blast
  with frame tr(3) show ?thesis
    unfolding r info_def by blast
qed

theorem dispatch_failure_continues_witness:
  "errorInfo (downstreamSettled exampleBacklog (Rejected ''timeout'') 300)
     = \<lparr> err_code = 500, err_message = ''Error in event update_marker_mode: timeout'' \<rparr>
   \<and> state (downstreamSettled exampleBacklog (Rejected ''timeout'') 300) = ''error''
   \<and> etype (currentEvent (downstreamSettled exampleBacklog (Rejected ''timeout'') 300))
       = Some ''data_update''
   \<and> map q_type (eventQueue (downstreamSettled exampleBacklog (Rejected ''timeout'') 300))
       = [''user_zoom_change'', ''update_tooltip_state'']"
proof -
  have t: "typeText (etype (currentEvent exampleBacklog)) = ''update_marker_mode''"
    by (simp add: exampleBacklog_eval typeText_def)
  have post: "etype (currentEvent (downstreamSettled exampleBacklog (Rejected ''timeout'') 300))
       = Some ''data_update''
   \<and> map q_type (eventQueue (downstreamSettled exampleBacklog (Rejected ''timeout'') 300))
       = [''user_zoom_change'', ''update_tooltip_state'']"
    by (simp add: downstreamSettled_def handleEventError_def eventCompleted.simps
          exampleBacklog_eval comparePriority_def Let_def)
       (simp add: startEvent.simps executeEvent.simps Let_def routedTypes_def)
  from dispatch_failure_continues [of exampleBacklog "''timeout''" 300] post
  show ?thesis by (simp add: t)
qed

section \<open>Real-time poller\<close>

lemma performUpdate_reschedules:
  assumes "timerSet (updateTimer p)"
  shows "pending (fst (performUpdate p False outcome now))
           = pending p @ [(Suc (issued p), updateInterval p)]"
  using assms
  by (cases outcome) (simp_all add: performUpdate_def scheduleNextUpdate_def Let_def)

text \<open>
  C2. In the code the third consecutive failure does not stop the ticking. A poller is
  started and its timeout fires three times, the map ready and the user idle, each update
  failing. The third run of \<open>performUpdate\<close> counts three errors and leaves through the
  \<^verbatim>\<open>return\<close> that pauses the updates, but the \<^verbatim>\<open>finally\<close> block still schedules the next
  tick: a timeout is pending afterwards, and when it fires a fourth update is attempted
  and a fifth tick scheduled.
\<close>

theorem poller_keeps_ticking_after_three_failures:
  "errorCount threeFailures = 3
   \<and> maxConsecutiveErrors threeFailures = 3
   \<and> snd (performUpdate (twoFailures \<lparr> pending := [] \<rparr>) False Failed 30) = ReturnPaused
   \<and> updateTimer threeFailures = Some 4
   \<and> pending threeFailures = [(4, 5000)]
   \<and> errorCount (timerFired threeFailures 4 True False Failed 40) = 4
   \<and> pending (timerFired threeFailures 4 True False Failed 40) = [(5, 5000)]"
  by (simp add: threeFailures_def twoFailures_def timerFired_def startUpdates_def
        stopUpdates_def realtimeManager_def scheduleNextUpdate_def performUpdate_def
        timerSet_def Let_def)

end
